theory Spec2Isabelle
  imports Main "HOL-Library.Word"
begin

unbundle bit_operations_syntax

section \<open>Data model of the SMF validator\<close>

text \<open>
  Bytes are 8-bit words, so every list of bytes is a well-formed input buffer.
  Python integers are unbounded: values assembled from bytes, lengths and cursor
  positions are natural numbers (the source never drives them below zero), while
  quantities computed with a subtraction that may go below zero (the SMPTE frame
  rate, the active-note counters, diagnostic offsets) are integers.
\<close>

type_synonym byte = "8 word"

text \<open>The exceptions the validator core can meet, with the text \<open>str(e)\<close> gives:
  \<open>EOFError\<close> is "Unexpected EOF" (raised by \<open>Reader.read\<close>), \<open>ValueError\<close> is
  "VLQ demasiado largo (>4 bytes)" (raised by \<open>read_vlq\<close>), \<open>IndexError\<close> is an
  index past the end of a byte string, \<open>OSError\<close> is a failure of \<open>open\<close> or
  \<open>f.read\<close>.\<close>

datatype exn = EOFError | ValueError | IndexError | OSError

text \<open>
  The diagnostics are formatted strings in the source, several with accented
  characters. Each message template is one constructor here, carrying the values
  the f-string interpolates, in the order of the source:

  \<^item> \<open>Falta_MTrk\<close>: "falta 'MTrk'."
  \<^item> \<open>Longitud_excede\<close>: "longitud declarada excede archivo."
  \<^item> \<open>VLQ_invalido e\<close>: "VLQ invalido: {e}"
  \<^item> \<open>Running_status_sin_previo\<close>: "running status sin previo."
  \<^item> \<open>Status_indefinido\<close>: "status indefinido."
  \<^item> \<open>Datos_insuficientes st\<close>: "datos insuficientes para {hex(status)}."
  \<^item> \<open>Dato_mayor_127 st v\<close>: "dato >127 en msg {hex(status)}: {v}"
  \<^item> \<open>Meta_truncado\<close>: "meta truncado."
  \<^item> \<open>Meta_VLQ_invalido e\<close>: "meta VLQ invalido: {e}"
  \<^item> \<open>Meta_datos_truncados m\<close>: "meta datos truncados {hex(meta)}."
  \<^item> \<open>EOT_len_no_cero\<close>: "End-of-Track len !=0."
  \<^item> \<open>Bytes_extra_tras_EOT k\<close>: "bytes extra tras EOT ({k})."
  \<^item> \<open>Tempo_len ln\<close>: "Tempo len {ln} (3)."
  \<^item> \<open>Tempo_inusual us\<close>: "Tempo inusual {us} us/qn."
  \<^item> \<open>TimeSig_len ln\<close>: "TimeSig len {ln} (4)."
  \<^item> \<open>Compas_inusual nn dd\<close>: "compas inusual nn={nn}, dd={dd}."
  \<^item> \<open>KeySig_len ln\<close>: "KeySig len {ln} (2)."
  \<^item> \<open>SysEx_VLQ_invalido e\<close>: "SysEx VLQ invalido: {e}"
  \<^item> \<open>SysEx_truncado\<close>: "SysEx truncado."
  \<^item> \<open>Status_desconocido st\<close>: "status desconocido {hex(status)}."
  \<^item> \<open>Len_analizada p d\<close>: "len analizada {p} != declarada {d}."
  \<^item> \<open>Sin_End_of_Track\<close>: "sin End-of-Track (FF 2F 00)."
  \<^item> \<open>Error_inesperado e\<close>: "error inesperado: {e}"
\<close>

datatype track_msg =
    Falta_MTrk
  | Longitud_excede
  | VLQ_invalido exn
  | Running_status_sin_previo
  | Status_indefinido
  | Datos_insuficientes byte
  | Dato_mayor_127 byte byte
  | Meta_truncado
  | Meta_VLQ_invalido exn
  | Meta_datos_truncados byte
  | EOT_len_no_cero
  | Bytes_extra_tras_EOT nat
  | Tempo_len nat
  | Tempo_inusual nat
  | TimeSig_len nat
  | Compas_inusual byte byte
  | KeySig_len nat
  | SysEx_VLQ_invalido exn
  | SysEx_truncado
  | Status_desconocido byte
  | Len_analizada nat nat
  | Sin_End_of_Track
  | Error_inesperado exn

text \<open>
  File-level messages, and \<open>Pista t m\<close> for every track message, which the source
  prefixes with "Pista {tindex}: ":

  \<^item> \<open>SMPTE_fps_inusual fps\<close>: "SMPTE fps inusual: {fps}";
    \<open>SMPTE_fps_inusual_loc\<close>: "SMPTE fps inusual" (the text stored with the offset)
  \<^item> \<open>Ticks_frame_cero\<close>: "Ticks/frame=0 invalido"
  \<^item> \<open>Division_PPQN\<close>: "Division PPQN debe ser >0"
  \<^item> \<open>No_MThd\<close>: "No MThd al inicio"
  \<^item> \<open>Cabecera_corta\<close>: "Cabecera demasiado corta"
  \<^item> \<open>Cabecera_con hlen\<close>: "Cabecera con {hlen} bytes (estandar=6)";
    \<open>Cabecera_bytes hlen\<close>: "Cabecera {hlen} bytes" (the text stored with the offset)
  \<^item> \<open>Formato_desconocido fmt\<close>: "Formato desconocido: {fmt}"
  \<^item> \<open>Pistas_cero\<close>: "Numero de pistas=0 invalido"
  \<^item> \<open>Error_cabecera e\<close>: "Error cabecera: {e}"
  \<^item> \<open>Error_general e\<close>: "Error: {e}"
\<close>

datatype msg =
    SMPTE_fps_inusual int
  | SMPTE_fps_inusual_loc
  | Ticks_frame_cero
  | Division_PPQN
  | No_MThd
  | Cabecera_corta
  | Cabecera_con nat
  | Cabecera_bytes nat
  | Formato_desconocido nat
  | Pistas_cero
  | Error_cabecera exn
  | Error_general exn
  | Pista nat track_msg

record MIDIHeader =
  format_type :: nat
  num_tracks :: nat
  division :: nat

record TrackStats =
  note_on :: nat
  note_off :: nat
  dangling_notes :: nat
  program_changes :: nat
  controllers :: nat
  pitch_bends :: nat
  aftertouch_poly :: nat
  aftertouch_ch :: nat
  sysex :: nat
  meta :: nat
  tempo_events :: nat
  time_sig_events :: nat
  key_sig_events :: nat
  tempo_values :: "nat list"

record TrackReport =
  index :: nat
  length_declared :: nat
  length_parsed :: nat
  has_end_of_track :: bool
  t_errors :: "msg list"
  t_warnings :: "msg list"
  t_error_locs :: "(msg \<times> int) list"
  t_warning_locs :: "(msg \<times> int) list"
  stats :: TrackStats

record FileReport =
  path :: string
  ok :: bool
  header :: "MIDIHeader option"
  tracks :: "TrackReport list"
  errors :: "msg list"
  warnings :: "msg list"
  error_locs :: "(msg \<times> int) list"
  warning_locs :: "(msg \<times> int) list"
  bytes_size :: nat

definition TrackStats0 :: TrackStats where
  "TrackStats0 = \<lparr>note_on = 0, note_off = 0, dangling_notes = 0, program_changes = 0,
     controllers = 0, pitch_bends = 0, aftertouch_poly = 0, aftertouch_ch = 0, sysex = 0,
     meta = 0, tempo_events = 0, time_sig_events = 0, key_sig_events = 0,
     tempo_values = []\<rparr>"

definition TrackReport0 :: "nat \<Rightarrow> TrackReport" where
  "TrackReport0 tindex = \<lparr>index = tindex, length_declared = 0, length_parsed = 0,
     has_end_of_track = False, t_errors = [], t_warnings = [], t_error_locs = [],
     t_warning_locs = [], stats = TrackStats0\<rparr>"

definition FileReport0 :: "string \<Rightarrow> FileReport" where
  "FileReport0 p = \<lparr>path = p, ok = False, header = None, tracks = [], errors = [],
     warnings = [], error_locs = [], warning_locs = [], bytes_size = 0\<rparr>"

section \<open>Byte cursor and primitive decoders\<close>

text \<open>The field \<open>len\<close> of the source is set once to \<open>len(data)\<close> and neither it nor
  \<open>data\<close> is ever assigned again, so it is the length of \<open>data\<close> here.\<close>

record Reader =
  data :: "byte list"
  pos :: nat

definition Reader0 :: "byte list \<Rightarrow> Reader" where
  "Reader0 d = \<lparr>data = d, pos = 0\<rparr>"

definition len :: "Reader \<Rightarrow> nat" where
  "len r = length (data r)"

text \<open>\<open>remaining\<close> is \<open>len - pos\<close> on Python integers.\<close>

definition remaining :: "Reader \<Rightarrow> int" where
  "remaining r = int (len r) - int (pos r)"

definition tell :: "Reader \<Rightarrow> nat" where
  "tell r = pos r"

text \<open>\<open>read\<close> raises \<open>EOFError\<close> and leaves the cursor where it was, or returns
  the slice \<open>data[pos:pos+n]\<close> and the advanced cursor.\<close>

definition read :: "Reader \<Rightarrow> nat \<Rightarrow> exn + (byte list \<times> Reader)" where
  "read r n =
     (if pos r + n > len r then Inl EOFError
      else Inr (take n (drop (pos r) (data r)), r\<lparr>pos := pos r + n\<rparr>))"

text \<open>Indexing a byte string: \<open>IndexError\<close> past the end.\<close>

definition at :: "byte list \<Rightarrow> nat \<Rightarrow> exn + byte" where
  "at b i = (if i < length b then Inr (b ! i) else Inl IndexError)"

definition bindE :: "exn + 'a \<Rightarrow> ('a \<Rightarrow> exn + 'b) \<Rightarrow> exn + 'b" where
  "bindE m f = (case m of Inl e \<Rightarrow> Inl e | Inr x \<Rightarrow> f x)"

definition read_uint16_be :: "byte list \<Rightarrow> exn + nat" where
  "read_uint16_be b =
     bindE (at b 0) (\<lambda>b0. bindE (at b 1) (\<lambda>b1.
       Inr (push_bit 8 (unat b0) OR unat b1)))"

definition read_uint32_be :: "byte list \<Rightarrow> exn + nat" where
  "read_uint32_be b =
     bindE (at b 0) (\<lambda>b0. bindE (at b 1) (\<lambda>b1. bindE (at b 2) (\<lambda>b2. bindE (at b 3) (\<lambda>b3.
       Inr (push_bit 24 (unat b0) OR push_bit 16 (unat b1) OR push_bit 8 (unat b2) OR unat b3)))))"

text \<open>\<open>read_vlq\<close>: the \<open>for _ in range(4)\<close> loop, counted down by its first
  argument; falling out of the loop raises \<open>ValueError\<close>. The cursor is mutated
  by every successful \<open>read\<close>, also when the decoder then raises, so the cursor
  is returned in both cases.\<close>

fun read_vlq_loop :: "nat \<Rightarrow> nat \<Rightarrow> Reader \<Rightarrow> Reader \<times> (exn + nat)" where
  "read_vlq_loop 0 val r = (r, Inl ValueError)"
| "read_vlq_loop (Suc k) val r =
     (case read r 1 of
        Inl e \<Rightarrow> (r, Inl e)
      | Inr (bs, r') \<Rightarrow>
          (case at bs 0 of
             Inl e \<Rightarrow> (r', Inl e)
           | Inr byte \<Rightarrow>
               (let val' = push_bit 7 val OR unat (byte AND 0x7F)
                in if byte AND 0x80 = 0 then (r', Inr val')
                   else read_vlq_loop k val' r')))"

definition read_vlq :: "Reader \<Rightarrow> Reader \<times> (exn + nat)" where
  "read_vlq r = read_vlq_loop 4 0 r"

section \<open>Header decoder\<close>

definition f_err :: "FileReport \<Rightarrow> msg \<Rightarrow> msg \<Rightarrow> int \<Rightarrow> FileReport" where
  "f_err rep m ml off = rep\<lparr>errors := errors rep @ [m], error_locs := error_locs rep @ [(ml, off)]\<rparr>"

definition f_warn :: "FileReport \<Rightarrow> msg \<Rightarrow> msg \<Rightarrow> int \<Rightarrow> FileReport" where
  "f_warn rep m ml off =
     rep\<lparr>warnings := warnings rep @ [m], warning_locs := warning_locs rep @ [(ml, off)]\<rparr>"

text \<open>The frame rate of an SMPTE division, as the source computes it.\<close>

definition smpte_fps :: "nat \<Rightarrow> int" where
  "smpte_fps d =
     (let fps = int (drop_bit 8 d AND 0xFF);
          fps = (if fps \<ge> 0x80 then fps - 0x100 else fps)
      in - fps)"

definition validate_division :: "nat \<Rightarrow> FileReport \<Rightarrow> FileReport" where
  "validate_division d rep =
     (if d AND 0x8000 \<noteq> 0 then
        (let fps = smpte_fps d;
             tpf = d AND 0xFF;
             rep1 = (if fps \<notin> {24, 25, 29, 30}
                     then f_warn rep (SMPTE_fps_inusual fps) SMPTE_fps_inusual_loc 0 else rep)
         in if tpf = 0 then f_err rep1 Ticks_frame_cero Ticks_frame_cero 0 else rep1)
      else
        (if d \<le> 0 then f_err rep Division_PPQN Division_PPQN 0 else rep))"

definition MAGIC_MTHD :: "byte list" where
  "MAGIC_MTHD = [0x4D, 0x54, 0x68, 0x64]"

definition MAGIC_MTRK :: "byte list" where
  "MAGIC_MTRK = [0x4D, 0x54, 0x72, 0x6B]"

text \<open>
  The body of the \<open>try\<close> of \<open>parse_header\<close>. It returns the cursor and the report as
  they are when it ends, and either the exception that ended it or its return value.
\<close>

definition parse_header_try ::
  "Reader \<Rightarrow> FileReport \<Rightarrow> Reader \<times> FileReport \<times> (exn + MIDIHeader option)" where
  "parse_header_try r rep =
     (case read r 4 of
        Inl e \<Rightarrow> (r, rep, Inl e)
      | Inr (magic, r1) \<Rightarrow>
          if magic \<noteq> MAGIC_MTHD then (r1, f_err rep No_MThd No_MThd 0, Inr None)
          else
            (case read r1 4 of
               Inl e \<Rightarrow> (r1, rep, Inl e)
             | Inr (lb, r2) \<Rightarrow>
                 (case read_uint32_be lb of
                    Inl e \<Rightarrow> (r2, rep, Inl e)
                  | Inr hlen \<Rightarrow>
                      if hlen < 6
                      then (r2, f_err rep Cabecera_corta Cabecera_corta (int (tell r2)), Inr None)
                      else
                        (case read r2 6 of
                           Inl e \<Rightarrow> (r2, rep, Inl e)
                         | Inr (hb, r3) \<Rightarrow>
                             (case bindE (read_uint16_be (take 2 hb)) (\<lambda>fmt.
                                   bindE (read_uint16_be (take 2 (drop 2 hb))) (\<lambda>ntr.
                                   bindE (read_uint16_be (take 2 (drop 4 hb))) (\<lambda>dv.
                                   Inr (fmt, ntr, dv)))) of
                                Inl e \<Rightarrow> (r3, rep, Inl e)
                              | Inr (fmt, ntr, dv) \<Rightarrow>
                                  (case (if hlen > 6
                                         then (case read r3 (hlen - 6) of
                                                 Inl e \<Rightarrow> Inl e
                                               | Inr (_, r4) \<Rightarrow>
                                                   Inr (r4, f_warn rep (Cabecera_con hlen)
                                                              (Cabecera_bytes hlen) (int (tell r4))))
                                         else Inr (r3, rep)) of
                                     Inl e \<Rightarrow> (r3, rep, Inl e)
                                   | Inr (r5, rep1) \<Rightarrow>
                                       (let rep2 = (if fmt \<notin> {0, 1, 2}
                                                    then f_err rep1 (Formato_desconocido fmt)
                                                           (Formato_desconocido fmt) (int (tell r5))
                                                    else rep1);
                                            rep3 = (if ntr = 0
                                                    then f_err rep2 Pistas_cero Pistas_cero (int (tell r5))
                                                    else rep2);
                                            rep4 = validate_division dv rep3
                                        in (r5, rep4,
                                            Inr (Some \<lparr>format_type = fmt, num_tracks = ntr,
                                                        division = dv\<rparr>)))))))))"

text \<open>\<open>parse_header\<close>: the \<open>except Exception\<close> clause turns an exception of the
  body into a diagnostic and the result \<open>None\<close>.\<close>

definition parse_header :: "Reader \<Rightarrow> FileReport \<Rightarrow> Reader \<times> FileReport \<times> MIDIHeader option" where
  "parse_header r rep =
     (case parse_header_try r rep of
        (r', rep', Inl e) \<Rightarrow>
          (r', f_err rep' (Error_cabecera e) (Error_cabecera e) (int (tell r')), None)
      | (r', rep', Inr h) \<Rightarrow> (r', rep', h))"

section \<open>Event decoder\<close>

definition t_err :: "TrackReport \<Rightarrow> msg \<Rightarrow> int \<Rightarrow> TrackReport" where
  "t_err t m abs_off = t\<lparr>t_errors := t_errors t @ [m], t_error_locs := t_error_locs t @ [(m, abs_off)]\<rparr>"

definition t_warn :: "TrackReport \<Rightarrow> msg \<Rightarrow> int \<Rightarrow> TrackReport" where
  "t_warn t m abs_off =
     t\<lparr>t_warnings := t_warnings t @ [m], t_warning_locs := t_warning_locs t @ [(m, abs_off)]\<rparr>"

text \<open>\<open>_check_data_range\<close>: the context string is always "msg {hex(status)}", so
  the status byte stands for it.\<close>

fun check_data_range :: "byte list \<Rightarrow> TrackReport \<Rightarrow> nat \<Rightarrow> byte \<Rightarrow> int \<Rightarrow> TrackReport" where
  "check_data_range [] t tindex st abs_off = t"
| "check_data_range (v # vs) t tindex st abs_off =
     (if unat v > 127 then t_err t (Pista tindex (Dato_mayor_127 st v)) abs_off
      else check_data_range vs t tindex st abs_off)"

text \<open>
  The variables of the event loop of \<open>parse_track\<close>: the sub-cursor \<open>local\<close>, the
  running \<open>status\<close>, the dictionary \<open>active\<close> keyed by (channel, pitch), and the
  track report \<open>tr\<close>. One pass through the loop body ends by reaching its end
  (\<open>Continue\<close>), by \<open>break\<close>, or by an exception that no inner \<open>try\<close> catches
  (\<open>Raise\<close>), which leaves the loop for the handler of \<open>parse_track\<close>.
\<close>

record scan_state =
  local :: Reader
  status :: "byte option"
  active :: "(byte \<times> byte) \<rightharpoonup> int"
  tr :: TrackReport

datatype flow = Continue | Break | Raise exn

definition s_err :: "nat \<Rightarrow> scan_state \<Rightarrow> track_msg \<Rightarrow> int \<Rightarrow> scan_state" where
  "s_err tindex s m abs_off = s\<lparr>tr := t_err (tr s) (Pista tindex m) abs_off\<rparr>"

definition s_warn :: "nat \<Rightarrow> scan_state \<Rightarrow> track_msg \<Rightarrow> int \<Rightarrow> scan_state" where
  "s_warn tindex s m abs_off = s\<lparr>tr := t_warn (tr s) (Pista tindex m) abs_off\<rparr>"

definition s_stats :: "(TrackStats \<Rightarrow> TrackStats) \<Rightarrow> scan_state \<Rightarrow> scan_state" where
  "s_stats f s = s\<lparr>tr := (tr s)\<lparr>stats := f (stats (tr s))\<rparr>\<rparr>"

text \<open>\<open>active.get(key,0)\<close>.\<close>

definition active_get :: "((byte \<times> byte) \<rightharpoonup> int) \<Rightarrow> byte \<times> byte \<Rightarrow> int" where
  "active_get a key = (case a key of None \<Rightarrow> 0 | Some c \<Rightarrow> c)"

text \<open>The two statements under \<open>if pair_notes:\<close> of a note-off (lines 170-171 and
  176-177 of the source are the same) and of a note-on (lines 180-181).\<close>

definition pair_note_off :: "bool \<Rightarrow> byte \<Rightarrow> byte list \<Rightarrow> scan_state \<Rightarrow> scan_state \<times> flow" where
  "pair_note_off pair_notes ch dat s =
     (if pair_notes then
        (case at dat 0 of
           Inl e \<Rightarrow> (s, Raise e)
         | Inr d0 \<Rightarrow>
             (s\<lparr>active := (active s)((ch, d0) \<mapsto> max 0 (active_get (active s) (ch, d0) - 1))\<rparr>,
              Continue))
      else (s, Continue))"

definition pair_note_on :: "bool \<Rightarrow> byte \<Rightarrow> byte list \<Rightarrow> scan_state \<Rightarrow> scan_state \<times> flow" where
  "pair_note_on pair_notes ch dat s =
     (if pair_notes then
        (case at dat 0 of
           Inl e \<Rightarrow> (s, Raise e)
         | Inr d0 \<Rightarrow>
             (s\<lparr>active := (active s)((ch, d0) \<mapsto> active_get (active s) (ch, d0) + 1)\<rparr>,
              Continue))
      else (s, Continue))"

text \<open>The statistics of a channel voice message whose data bytes \<open>dat\<close> have been
  read (lines 168-186).\<close>

definition channel_stats :: "bool \<Rightarrow> byte \<Rightarrow> nat \<Rightarrow> byte list \<Rightarrow> scan_state \<Rightarrow> scan_state \<times> flow" where
  "channel_stats pair_notes st dl dat s =
     (let ch = st AND 0x0F; mt = st AND 0xF0 in
      if mt = 0x80 then
        pair_note_off pair_notes ch dat (s_stats (\<lambda>x. x\<lparr>note_off := note_off x + 1\<rparr>) s)
      else if mt = 0x90 then
        (case (if dl = 2 then at dat 1 else Inr 0) of
           Inl e \<Rightarrow> (s, Raise e)
         | Inr vel \<Rightarrow>
             if vel = 0 then
               pair_note_off pair_notes ch dat (s_stats (\<lambda>x. x\<lparr>note_off := note_off x + 1\<rparr>) s)
             else
               pair_note_on pair_notes ch dat (s_stats (\<lambda>x. x\<lparr>note_on := note_on x + 1\<rparr>) s))
      else if mt = 0xA0 then (s_stats (\<lambda>x. x\<lparr>aftertouch_poly := aftertouch_poly x + 1\<rparr>) s, Continue)
      else if mt = 0xB0 then (s_stats (\<lambda>x. x\<lparr>controllers := controllers x + 1\<rparr>) s, Continue)
      else if mt = 0xC0 then (s_stats (\<lambda>x. x\<lparr>program_changes := program_changes x + 1\<rparr>) s, Continue)
      else if mt = 0xD0 then (s_stats (\<lambda>x. x\<lparr>aftertouch_ch := aftertouch_ch x + 1\<rparr>) s, Continue)
      else if mt = 0xE0 then (s_stats (\<lambda>x. x\<lparr>pitch_bends := pitch_bends x + 1\<rparr>) s, Continue)
      else (s, Continue))"

text \<open>The branch \<open>0x80 <= status <= 0xEF\<close> (lines 163-186).\<close>

definition channel_msg :: "nat \<Rightarrow> nat \<Rightarrow> bool \<Rightarrow> byte \<Rightarrow> scan_state \<Rightarrow> scan_state \<times> flow" where
  "channel_msg tindex start pair_notes st s =
     (let mt = st AND 0xF0;
          dl = (if mt \<in> {0xC0, 0xD0} then 1 else 2 :: nat) in
      if remaining (local s) < int dl
      then (s_err tindex s (Datos_insuficientes st) (int start + int (tell (local s))), Break)
      else
        (case read (local s) dl of
           Inl e \<Rightarrow> (s, Raise e)
         | Inr (dat, l1) \<Rightarrow>
             channel_stats pair_notes st dl dat
               (s\<lparr>local := l1,
                  tr := check_data_range dat (tr s) tindex st
                          (int start + int (tell l1) - int dl)\<rparr>)))"

text \<open>What follows the read of the data \<open>md\<close> of a meta event of type \<open>m\<close> and
  declared length \<open>ln\<close> (lines 193-213); \<open>local s\<close> is the cursor after that read.\<close>

definition meta_body :: "nat \<Rightarrow> nat \<Rightarrow> bool \<Rightarrow> byte \<Rightarrow> nat \<Rightarrow> byte list \<Rightarrow> scan_state \<Rightarrow> scan_state \<times> flow" where
  "meta_body tindex start strict m ln md s0 =
     (let s = s_stats (\<lambda>x. x\<lparr>meta := meta x + 1\<rparr>) s0;
          here = int start + int (tell (local s)) in
      if m = 0x2F then
        (let s1 = (if ln \<noteq> 0 then s_err tindex s EOT_len_no_cero (here - int ln) else s);
             s2 = s1\<lparr>tr := (tr s1)\<lparr>has_end_of_track := True\<rparr>\<rparr>
         in if remaining (local s2) > 0 then
              (let s3 = s_warn tindex s2 (Bytes_extra_tras_EOT (nat (remaining (local s2)))) here
               in case read (local s3) (nat (remaining (local s3))) of
                    Inl e \<Rightarrow> (s3, Raise e)
                  | Inr (_, l1) \<Rightarrow> (s3\<lparr>local := l1\<rparr>, Break))
            else (s2, Continue))
      else if m = 0x51 then
        (if ln \<noteq> 3 then (s_err tindex s (Tempo_len ln) (here - int ln), Continue)
         else
           (case bindE (at md 0) (\<lambda>a. bindE (at md 1) (\<lambda>b. bindE (at md 2) (\<lambda>c.
                   Inr (push_bit 16 (unat a) OR push_bit 8 (unat b) OR unat c)))) of
              Inl e \<Rightarrow> (s, Raise e)
            | Inr us \<Rightarrow>
                (let s1 = s_stats (\<lambda>x. x\<lparr>tempo_events := tempo_events x + 1\<rparr>) s;
                     s2 = s_stats (\<lambda>x. x\<lparr>tempo_values := tempo_values x @ [us]\<rparr>) s1
                 in if strict \<and> \<not> (10000 \<le> us \<and> us \<le> 2000000)
                    then (s_warn tindex s2 (Tempo_inusual us) (here - 3), Continue)
                    else (s2, Continue))))
      else if m = 0x58 then
        (if ln \<noteq> 4 then (s_err tindex s (TimeSig_len ln) (here - int ln), Continue)
         else
           (case md of
              [nn, dd, cc, bb] \<Rightarrow>
                (let s1 = (if nn = 0 \<or> dd > 7
                           then s_warn tindex s (Compas_inusual nn dd) (here - 4) else s)
                 in (s_stats (\<lambda>x. x\<lparr>time_sig_events := time_sig_events x + 1\<rparr>) s1, Continue))
            | _ \<Rightarrow> (s, Raise ValueError)))
      else if m = 0x59 then
        (if ln \<noteq> 2 then (s_err tindex s (KeySig_len ln) (here - int ln), Continue)
         else (s_stats (\<lambda>x. x\<lparr>key_sig_events := key_sig_events x + 1\<rparr>) s, Continue))
      else (s, Continue))"

text \<open>The branch \<open>status == 0xFF\<close> (lines 187-213).\<close>

definition meta_msg :: "nat \<Rightarrow> nat \<Rightarrow> bool \<Rightarrow> scan_state \<Rightarrow> scan_state \<times> flow" where
  "meta_msg tindex start strict s =
     (if remaining (local s) < 2
      then (s_err tindex s Meta_truncado (int start + int (tell (local s))), Break)
      else
        (case read (local s) 1 of
           Inl e \<Rightarrow> (s, Raise e)
         | Inr (mb, l1) \<Rightarrow>
             (case at mb 0 of
                Inl e \<Rightarrow> (s\<lparr>local := l1\<rparr>, Raise e)
              | Inr m \<Rightarrow>
                  (case read_vlq l1 of
                     (l2, Inl e) \<Rightarrow>
                       (s_err tindex (s\<lparr>local := l2\<rparr>) (Meta_VLQ_invalido e)
                          (int start + int (tell l2)), Break)
                   | (l2, Inr ln) \<Rightarrow>
                       if remaining l2 < int ln
                       then (s_err tindex (s\<lparr>local := l2\<rparr>) (Meta_datos_truncados m)
                               (int start + int (tell l2)), Break)
                       else
                         (case read l2 ln of
                            Inl e \<Rightarrow> (s\<lparr>local := l2\<rparr>, Raise e)
                          | Inr (md, l3) \<Rightarrow>
                              meta_body tindex start strict m ln md (s\<lparr>local := l3\<rparr>))))))"

text \<open>The branch \<open>status in (0xF0,0xF7)\<close> (lines 214-218).\<close>

definition sysex_msg :: "nat \<Rightarrow> nat \<Rightarrow> scan_state \<Rightarrow> scan_state \<times> flow" where
  "sysex_msg tindex start s =
     (case read_vlq (local s) of
        (l1, Inl e) \<Rightarrow>
          (s_err tindex (s\<lparr>local := l1\<rparr>) (SysEx_VLQ_invalido e) (int start + int (tell l1)), Break)
      | (l1, Inr ln) \<Rightarrow>
          if remaining l1 < int ln
          then (s_err tindex (s\<lparr>local := l1\<rparr>) SysEx_truncado (int start + int (tell l1)), Break)
          else
            (case read l1 ln of
               Inl e \<Rightarrow> (s\<lparr>local := l1\<rparr>, Raise e)
             | Inr (_, l2) \<Rightarrow>
                 (s_stats (\<lambda>x. x\<lparr>sysex := sysex x + 1\<rparr>) (s\<lparr>local := l2\<rparr>), Continue)))"

text \<open>The dispatch on the running status (lines 162-220).\<close>

definition dispatch :: "nat \<Rightarrow> nat \<Rightarrow> bool \<Rightarrow> bool \<Rightarrow> scan_state \<Rightarrow> scan_state \<times> flow" where
  "dispatch tindex start pair_notes strict s =
     (case status s of
        None \<Rightarrow> (s_err tindex s Status_indefinido (int start + int (tell (local s))), Break)
      | Some st \<Rightarrow>
          if 0x80 \<le> st \<and> st \<le> 0xEF then channel_msg tindex start pair_notes st s
          else if st = 0xFF then meta_msg tindex start strict s
          else if st \<in> {0xF0, 0xF7} then sysex_msg tindex start s
          else (s_err tindex s (Status_desconocido st) (int start + int (tell (local s))), Break))"

text \<open>One pass through the body of \<open>while local.remaining()>0\<close> (lines 153-220).
  The running-status branch moves the sub-cursor back over the byte just read.\<close>

definition scan_step :: "nat \<Rightarrow> nat \<Rightarrow> bool \<Rightarrow> bool \<Rightarrow> scan_state \<Rightarrow> scan_state \<times> flow" where
  "scan_step tindex start pair_notes strict s =
     (let ev_start = tell (local s) in
      case read_vlq (local s) of
        (l1, Inl e) \<Rightarrow>
          (s_err tindex (s\<lparr>local := l1\<rparr>) (VLQ_invalido e) (int start + int ev_start), Break)
      | (l1, Inr _) \<Rightarrow>
          if remaining l1 \<le> 0 then (s\<lparr>local := l1\<rparr>, Break)
          else
            (case read l1 1 of
               Inl e \<Rightarrow> (s\<lparr>local := l1\<rparr>, Raise e)
             | Inr (bs, l2) \<Rightarrow>
                 (case at bs 0 of
                    Inl e \<Rightarrow> (s\<lparr>local := l2\<rparr>, Raise e)
                  | Inr b \<Rightarrow>
                      if b AND 0x80 \<noteq> 0
                      then dispatch tindex start pair_notes strict (s\<lparr>local := l2, status := Some b\<rparr>)
                      else if status s = None
                      then (s_err tindex (s\<lparr>local := l2\<rparr>) Running_status_sin_previo
                              (int start + int (tell l2) - 1), Break)
                      else dispatch tindex start pair_notes strict
                             (s\<lparr>local := l2\<lparr>pos := pos l2 - 1\<rparr>\<rparr>))))"

subsection \<open>The event loop terminates\<close>

text \<open>Every read keeps the buffer and moves the cursor forward; a pass of the loop
  body that reaches its end has decoded a delta time, so it has moved the sub-cursor
  by at least one byte.\<close>

lemma read_Inr:
  "read r n = Inr (bs, r') \<Longrightarrow> data r' = data r \<and> pos r' = pos r + n \<and> length bs = n \<and> pos r' \<le> len r"
  by (auto simp: read_def len_def split: if_splits)

lemma read_vlq_loop_adv: "read_vlq_loop k v r = (r', x) \<Longrightarrow> data r' = data r \<and> pos r \<le> pos r'"
proof (induction k arbitrary: v r)
  case 0
  then show ?case by simp
next
  case (Suc k)
  show ?case
  proof (cases "read r 1")
    case (Inl e)
    with Suc.prems show ?thesis by simp
  next
    case (Inr p)
    obtain bs r1 where p: "p = (bs, r1)" by (cases p)
    from Inr p have r1: "data r1 = data r" "pos r1 = pos r + 1" "length bs = 1"
      using read_Inr by blast+
    then obtain b where b: "at bs 0 = Inr b" by (auto simp: at_def)
    show ?thesis
    proof (cases "b AND 0x80 = 0")
      case True
      with Suc.prems Inr p b r1 show ?thesis by (auto simp: Let_def)
    next
      case False
      with Suc.prems Inr p b
      have "read_vlq_loop k (push_bit 7 v OR unat (b AND 0x7F)) r1 = (r', x)" by (simp add: Let_def)
      from Suc.IH[OF this] r1 show ?thesis by simp
    qed
  qed
qed

lemma read_vlq_loop_Inr: "read_vlq_loop k v r = (r', Inr n) \<Longrightarrow> pos r < pos r'"
proof (induction k arbitrary: v r)
  case 0
  then show ?case by simp
next
  case (Suc k)
  show ?case
  proof (cases "read r 1")
    case (Inl e)
    with Suc.prems show ?thesis by simp
  next
    case (Inr p)
    obtain bs r1 where p: "p = (bs, r1)" by (cases p)
    from Inr p have r1: "data r1 = data r" "pos r1 = pos r + 1" "length bs = 1"
      using read_Inr by blast+
    then obtain b where b: "at bs 0 = Inr b" by (auto simp: at_def)
    show ?thesis
    proof (cases "b AND 0x80 = 0")
      case True
      with Suc.prems Inr p b r1 show ?thesis by (auto simp: Let_def)
    next
      case False
      with Suc.prems Inr p b
      have "read_vlq_loop k (push_bit 7 v OR unat (b AND 0x7F)) r1 = (r', Inr n)" by (simp add: Let_def)
      from Suc.IH[OF this] r1 show ?thesis by simp
    qed
  qed
qed

lemma read_vlq_adv: "read_vlq r = (r', x) \<Longrightarrow> data r' = data r \<and> pos r \<le> pos r'"
  unfolding read_vlq_def by (rule read_vlq_loop_adv)

lemma read_vlq_Inr: "read_vlq r = (r', Inr n) \<Longrightarrow> data r' = data r \<and> pos r < pos r'"
  using read_vlq_loop_Inr read_vlq_loop_adv unfolding read_vlq_def by blast

lemma s_simps [simp]:
  "local (s_err t s m off) = local s" "local (s_warn t s m off) = local s" "local (s_stats f s) = local s"
  "status (s_err t s m off) = status s" "status (s_warn t s m off) = status s" "status (s_stats f s) = status s"
  by (simp_all add: s_err_def s_warn_def s_stats_def)

lemma pair_note_off_local: "pair_note_off pn ch dat s = (s', f) \<Longrightarrow> local s' = local s"
  by (auto simp: pair_note_off_def split: if_splits sum.splits)

lemma pair_note_on_local: "pair_note_on pn ch dat s = (s', f) \<Longrightarrow> local s' = local s"
  by (auto simp: pair_note_on_def split: if_splits sum.splits)

lemma channel_stats_local: "channel_stats pn st dl dat s = (s', f) \<Longrightarrow> local s' = local s"
  by (auto simp: channel_stats_def Let_def split: if_splits sum.splits
      dest!: pair_note_off_local pair_note_on_local)

lemma channel_msg_adv:
  "channel_msg t start pn st s = (s', f) \<Longrightarrow> data (local s') = data (local s) \<and> pos (local s) \<le> pos (local s')"
  by (auto simp: channel_msg_def Let_def split: if_splits sum.splits
      dest!: channel_stats_local read_Inr)

lemma meta_body_adv:
  "meta_body t start strict m ln md s = (s', f) \<Longrightarrow> data (local s') = data (local s) \<and> pos (local s) \<le> pos (local s')"
  by (auto simp: meta_body_def Let_def split: if_splits sum.splits list.splits dest!: read_Inr)

lemma meta_msg_adv:
  "meta_msg t start strict s = (s', f) \<Longrightarrow> data (local s') = data (local s) \<and> pos (local s) \<le> pos (local s')"
  by (auto simp: meta_msg_def Let_def split: if_splits sum.splits prod.splits
      dest!: read_Inr read_vlq_adv meta_body_adv)

lemma sysex_msg_adv:
  "sysex_msg t start s = (s', f) \<Longrightarrow> data (local s') = data (local s) \<and> pos (local s) \<le> pos (local s')"
  by (auto simp: sysex_msg_def Let_def split: if_splits sum.splits prod.splits
      dest!: read_Inr read_vlq_adv)

lemma dispatch_adv:
  "dispatch t start pn strict s = (s', f) \<Longrightarrow> data (local s') = data (local s) \<and> pos (local s) \<le> pos (local s')"
  unfolding dispatch_def
  by (auto split: option.splits if_splits dest: channel_msg_adv meta_msg_adv sysex_msg_adv)

lemma scan_step_Continue:
  assumes "scan_step t start pn strict s = (s', Continue)"
  shows "data (local s') = data (local s) \<and> pos (local s) < pos (local s')"
  using assms
  by (auto simp: scan_step_def Let_def split: if_splits sum.splits prod.splits
      dest!: read_Inr read_vlq_Inr dispatch_adv)

function scan :: "nat \<Rightarrow> nat \<Rightarrow> bool \<Rightarrow> bool \<Rightarrow> scan_state \<Rightarrow> scan_state \<times> exn option" where
  "scan tindex start pair_notes strict s =
     (if remaining (local s) > 0 then
        (case scan_step tindex start pair_notes strict s of
           (s', Continue) \<Rightarrow> scan tindex start pair_notes strict s'
         | (s', Break) \<Rightarrow> (s', None)
         | (s', Raise e) \<Rightarrow> (s', Some e))
      else (s, None))"
  by pat_completeness auto
termination
proof (relation "measure (\<lambda>(tindex, start, pair_notes, strict, s). len (local s) - pos (local s))")
  show "wf (measure (\<lambda>(tindex, start, pair_notes, strict, s). len (local s) - pos (local s)))"
    by simp
next
  fix tindex start :: nat and pair_notes strict :: bool and s x :: scan_state and s' :: scan_state
    and f :: flow
  assume rem: "0 < remaining (local s)"
    and step: "(s', f) = scan_step tindex start pair_notes strict s"
    and cont: "f = Continue"
  from step cont have "scan_step tindex start pair_notes strict s = (s', Continue)" by simp
  from scan_step_Continue[OF this] rem
  show "((tindex, start, pair_notes, strict, s'), (tindex, start, pair_notes, strict, s))
        \<in> measure (\<lambda>(tindex, start, pair_notes, strict, s). len (local s) - pos (local s))"
    by (auto simp: remaining_def len_def)
qed

declare scan.simps [simp del]

text \<open>
  The body of the \<open>try\<close> of \<open>parse_track\<close>: the outer cursor and the track report as
  they are when it ends, and the exception that ended it, if any. The parameter
  \<open>rep\<close> of the source is never used and is left out. \<open>r.data[start:end]\<close> is a
  slice with \<open>start \<le> end \<le> len(r.data)\<close>.
\<close>

definition parse_track_try :: "Reader \<Rightarrow> nat \<Rightarrow> bool \<Rightarrow> bool \<Rightarrow> Reader \<times> TrackReport \<times> exn option" where
  "parse_track_try r tindex pair_notes strict =
     (let tr0 = TrackReport0 tindex in
      case read r 4 of
        Inl e \<Rightarrow> (r, tr0, Some e)
      | Inr (magic, r1) \<Rightarrow>
          if magic \<noteq> MAGIC_MTRK
          then (r1, t_err tr0 (Pista tindex Falta_MTrk) (int (tell r1) - 4), None)
          else
            (case read r1 4 of
               Inl e \<Rightarrow> (r1, tr0, Some e)
             | Inr (lb, r2) \<Rightarrow>
                 (case read_uint32_be lb of
                    Inl e \<Rightarrow> (r2, tr0, Some e)
                  | Inr ld \<Rightarrow>
                      (let tr1 = tr0\<lparr>length_declared := ld\<rparr>;
                           start = tell r2;
                           end0 = start + length_declared tr1;
                           tr2 = (if end0 > len r2
                                  then t_err tr1 (Pista tindex Longitud_excede) (int start) else tr1);
                           end1 = (if end0 > len r2 then len r2 else end0);
                           local0 = Reader0 (take (end1 - start) (drop start (data r2)))
                       in case scan tindex start pair_notes strict
                                 \<lparr>local = local0, status = None, active = Map.empty, tr = tr2\<rparr> of
                            (s, Some e) \<Rightarrow> (r2, tr s, Some e)
                          | (s, None) \<Rightarrow>
                              (let tr3 = (tr s)\<lparr>length_parsed := tell (local s)\<rparr>;
                                   r3 = r2\<lparr>pos := end1\<rparr>;
                                   tr4 = (if length_parsed tr3 \<noteq> length_declared tr3
                                          then t_warn tr3
                                                 (Pista tindex (Len_analizada (length_parsed tr3)
                                                                  (length_declared tr3)))
                                                 (int end1)
                                          else tr3);
                                   tr5 = (if \<not> has_end_of_track tr4
                                          then t_err tr4 (Pista tindex Sin_End_of_Track) (int end1 - 1)
                                          else tr4);
                                   tr6 = (if pair_notes
                                          then tr5\<lparr>stats := (stats tr5)\<lparr>dangling_notes := 0\<rparr>\<rparr>
                                          else tr5)
                               in (r3, tr6, None))))))"

text \<open>\<open>parse_track\<close>: the \<open>except Exception\<close> clause records the exception as
  one more error of the track, at the position of the outer cursor.\<close>

definition parse_track :: "Reader \<Rightarrow> nat \<Rightarrow> bool \<Rightarrow> bool \<Rightarrow> Reader \<times> TrackReport" where
  "parse_track r tindex pair_notes strict =
     (case parse_track_try r tindex pair_notes strict of
        (r', t, Some e) \<Rightarrow> (r', t_err t (Pista tindex (Error_inesperado e)) (int (tell r')))
      | (r', t, None) \<Rightarrow> (r', t))"

section \<open>Report aggregator\<close>

text \<open>The loop \<open>while r.remaining()>0 and t<header.num_tracks\<close> of
  \<open>validate_midi_file\<close>, on the cursor, the counter \<open>t\<close> and the list \<open>rep.tracks\<close>.\<close>

function track_loop :: "nat \<Rightarrow> bool \<Rightarrow> bool \<Rightarrow> Reader \<Rightarrow> nat \<Rightarrow> TrackReport list \<Rightarrow> Reader \<times> TrackReport list" where
  "track_loop ntr pair_notes strict r t trs =
     (if remaining r > 0 \<and> t < ntr then
        (case parse_track r t pair_notes strict of
           (r', x) \<Rightarrow> track_loop ntr pair_notes strict r' (t + 1) (trs @ [x]))
      else (r, trs))"
  by pat_completeness auto
termination
  by (relation "measure (\<lambda>(ntr, pair_notes, strict, r, t, trs). ntr - t)") auto

declare track_loop.simps [simp del]

text \<open>
  \<open>validate_midi_file\<close>. Reading the file is the one effect of the validator: the
  argument \<open>fs\<close> gives, for a path, what \<open>open(path,'rb')\<close> followed by \<open>f.read()\<close>
  yields, the bytes or an exception. \<open>validate_midi_file_try\<close> is the body of the
  \<open>try\<close>, the report as it is when the body ends and the exception that ended it, if
  any; the \<open>except Exception\<close> clause is in \<open>validate_midi_file\<close>.
\<close>

definition validate_midi_file_try ::
  "(string \<Rightarrow> exn + byte list) \<Rightarrow> string \<Rightarrow> bool \<Rightarrow> bool \<Rightarrow> FileReport \<times> exn option" where
  "validate_midi_file_try fs p pair_notes strict =
     (let rep = FileReport0 p in
      case fs p of
        Inl e \<Rightarrow> (rep, Some e)
      | Inr d \<Rightarrow>
          (let rep1 = rep\<lparr>bytes_size := length d\<rparr>;
               r = Reader0 d
           in case parse_header r rep1 of
                (r1, rep2, None) \<Rightarrow> (rep2, None)
              | (r1, rep2, Some h) \<Rightarrow>
                  (let rep3 = rep2\<lparr>header := Some h\<rparr>;
                       (r2, trs) = track_loop (num_tracks h) pair_notes strict r1 0 (tracks rep3);
                       rep4 = rep3\<lparr>tracks := trs\<rparr>;
                       total_err = length (errors rep4)
                                   + sum_list (map (\<lambda>t. length (t_errors t)) (tracks rep4))
                   in (rep4\<lparr>ok := (total_err = 0)\<rparr>, None))))"

definition validate_midi_file :: "(string \<Rightarrow> exn + byte list) \<Rightarrow> string \<Rightarrow> bool \<Rightarrow> bool \<Rightarrow> FileReport" where
  "validate_midi_file fs p pair_notes strict =
     (case validate_midi_file_try fs p pair_notes strict of
        (rep, Some e) \<Rightarrow> rep\<lparr>errors := errors rep @ [Error_general e], ok := False\<rparr>
      | (rep, None) \<Rightarrow> rep)"

section \<open>Definitions for the statements\<close>

text \<open>The value of a variable-length quantity as the specification words it: each
  byte contributes its low 7 bits, most significant byte first.\<close>

definition vlq_value_spec :: "byte list \<Rightarrow> nat" where
  "vlq_value_spec bs = foldl (\<lambda>v b. 128 * v + unat b mod 128) 0 bs"

text \<open>The frame rate of an SMPTE division as the specification words it: the negated
  two's-complement value of the upper byte of the 16-bit field.\<close>

definition smpte_fps_spec :: "16 word \<Rightarrow> int" where
  "smpte_fps_spec w = - sint (ucast (drop_bit 8 w) :: 8 word)"

text \<open>A scan state in front of the two data bytes of a note (pitch 60, velocity 0)
  on channel 1, with running status Note-On.\<close>

definition note_state :: "((byte \<times> byte) \<rightharpoonup> int) \<Rightarrow> scan_state" where
  "note_state a = \<lparr>local = \<lparr>data = [0x3C, 0x00], pos = 0\<rparr>, status = Some 0x91, active = a,
                    tr = TrackReport0 0\<rparr>"

text \<open>A scan state in front of the type byte of a meta event.\<close>

definition meta_state :: "byte list \<Rightarrow> scan_state" where
  "meta_state bs = \<lparr>local = \<lparr>data = bs, pos = 0\<rparr>, status = Some 0xFF, active = Map.empty,
                     tr = TrackReport0 0\<rparr>"

text \<open>
  For a chunk whose tag and length have been read, leaving the outer cursor \<open>r2\<close> at
  the first byte after them and giving the declared length \<open>ld\<close>: \<open>chunk_end\<close> is the
  value of \<open>end\<close> after the clamp to the buffer, and \<open>chunk_scan\<close> is the state of the
  event loop of \<open>parse_track\<close> when it ends.
\<close>

definition chunk_end :: "Reader \<Rightarrow> nat \<Rightarrow> nat" where
  "chunk_end r2 ld = (if tell r2 + ld > len r2 then len r2 else tell r2 + ld)"

definition chunk_scan :: "Reader \<Rightarrow> nat \<Rightarrow> bool \<Rightarrow> bool \<Rightarrow> nat \<Rightarrow> scan_state" where
  "chunk_scan r2 tindex pair_notes strict ld =
     fst (scan tindex (tell r2) pair_notes strict
           \<lparr>local = Reader0 (take (chunk_end r2 ld - tell r2) (drop (tell r2) (data r2))),
              status = None, active = Map.empty,
              tr = (if tell r2 + ld > len r2
                    then t_err ((TrackReport0 tindex)\<lparr>length_declared := ld\<rparr>)
                           (Pista tindex Longitud_excede) (int (tell r2))
                    else (TrackReport0 tindex)\<lparr>length_declared := ld\<rparr>)\<rparr>)"

text \<open>Three files: the minimal valid file (format 0, one track, 96 ticks per
  quarter note, and a track chunk of 4 bytes holding the delta time 0 and the
  End-of-Track event \<open>FF 2F 00\<close>); the same file with a header chunk of declared
  length 7; and a file that starts with the tag \<open>RIFF\<close>.\<close>

definition minimal_file :: "byte list" where
  "minimal_file = [0x4D, 0x54, 0x68, 0x64, 0, 0, 0, 6, 0, 0, 0, 1, 0, 0x60,
                   0x4D, 0x54, 0x72, 0x6B, 0, 0, 0, 4, 0, 0xFF, 0x2F, 0]"

definition long_header_file :: "byte list" where
  "long_header_file = [0x4D, 0x54, 0x68, 0x64, 0, 0, 0, 7, 0, 0, 0, 1, 0, 0x60, 0,
                       0x4D, 0x54, 0x72, 0x6B, 0, 0, 0, 4, 0, 0xFF, 0x2F, 0]"

definition riff_file :: "byte list" where
  "riff_file = [0x52, 0x49, 0x46, 0x46, 0, 0, 0, 6, 0, 0, 0, 1, 0, 0x60]"

text \<open>Two more files: the minimal file cut one byte short, so that its track chunk
  declares 4 bytes and holds 3; and a file whose track chunk of 2 bytes holds the
  delta time 0 and the undefined status byte \<open>F3\<close>.\<close>

definition truncated_track_file :: "byte list" where
  "truncated_track_file = [0x4D, 0x54, 0x68, 0x64, 0, 0, 0, 6, 0, 0, 0, 1, 0, 0x60,
                           0x4D, 0x54, 0x72, 0x6B, 0, 0, 0, 4, 0, 0xFF, 0x2F]"

definition bad_status_file :: "byte list" where
  "bad_status_file = [0x4D, 0x54, 0x68, 0x64, 0, 0, 0, 6, 0, 0, 0, 1, 0, 0x60,
                      0x4D, 0x54, 0x72, 0x6B, 0, 0, 0, 2, 0, 0xF3]"

text \<open>
  When the decoder sees an End-of-Track event. \<open>meta_eot_here\<close> is the condition under
  which the meta branch (lines 188-196), with the sub-cursor in front of the type byte,
  reaches the assignment of the End-of-Track flag: two bytes remain, the type byte is
  \<open>2F\<close>, the length decodes and that many bytes remain. \<open>eot_event_here\<close> is the
  condition under which one pass of the loop body (lines 153-196) reaches it, from the
  sub-cursor and the running status at the head of the loop: the delta time decodes, a
  byte remains, and the status, given by that byte or by the running status, is
  \<open>FF\<close>. \<open>eot_seen\<close> holds when some pass of the loop started in a state does so.
\<close>

definition meta_eot_here :: "Reader \<Rightarrow> bool" where
  "meta_eot_here l =
     (2 \<le> remaining l \<and>
      (case read l 1 of
         Inl e \<Rightarrow> False
       | Inr (mb, l1) \<Rightarrow>
           at mb 0 = Inr 0x2F \<and>
           (case read_vlq l1 of
              (l2, Inl e) \<Rightarrow> False
            | (l2, Inr ln) \<Rightarrow> int ln \<le> remaining l2)))"

definition eot_event_here :: "Reader \<Rightarrow> byte option \<Rightarrow> bool" where
  "eot_event_here l rs =
     (case read_vlq l of
        (l1, Inl e) \<Rightarrow> False
      | (l1, Inr dt) \<Rightarrow>
          0 < remaining l1 \<and>
          (case read l1 1 of
             Inl e \<Rightarrow> False
           | Inr (bs, l2) \<Rightarrow>
               (case at bs 0 of
                  Inl e \<Rightarrow> False
                | Inr b \<Rightarrow>
                    if b AND 0x80 \<noteq> 0 then b = 0xFF \<and> meta_eot_here l2
                    else rs = Some 0xFF \<and> meta_eot_here (l2\<lparr>pos := pos l2 - 1\<rparr>))))"

function eot_seen :: "nat \<Rightarrow> nat \<Rightarrow> bool \<Rightarrow> bool \<Rightarrow> scan_state \<Rightarrow> bool" where
  "eot_seen tindex start pair_notes strict s =
     (if remaining (local s) > 0 then
        eot_event_here (local s) (status s) \<or>
        (case scan_step tindex start pair_notes strict s of
           (s', Continue) \<Rightarrow> eot_seen tindex start pair_notes strict s'
         | (s', Break) \<Rightarrow> False
         | (s', Raise e) \<Rightarrow> False)
      else False)"
  by pat_completeness auto
termination
proof (relation "measure (\<lambda>(tindex, start, pair_notes, strict, s). len (local s) - pos (local s))")
  show "wf (measure (\<lambda>(tindex, start, pair_notes, strict, s). len (local s) - pos (local s)))"
    by simp
next
  fix tindex start :: nat and pair_notes strict :: bool and s x :: scan_state and s' :: scan_state
    and f :: flow
  assume rem: "0 < remaining (local s)"
    and step: "(s', f) = scan_step tindex start pair_notes strict s"
    and cont: "f = Continue"
  from step cont have "scan_step tindex start pair_notes strict s = (s', Continue)" by simp
  from scan_step_Continue[OF this] rem
  show "((tindex, start, pair_notes, strict, s'), (tindex, start, pair_notes, strict, s))
        \<in> measure (\<lambda>(tindex, start, pair_notes, strict, s). len (local s) - pos (local s))"
    by (auto simp: remaining_def len_def)
qed

declare eot_seen.simps [simp del]

text \<open>The state in which \<open>parse_track\<close> enters its event loop, for a chunk whose tag
  and length have been read; and whether the decoder, with the outer cursor in front
  of a track chunk, sees an End-of-Track event in it: the tag is \<open>MTrk\<close>, the length is
  there, and the event loop sees one.\<close>

definition chunk_state :: "Reader \<Rightarrow> nat \<Rightarrow> nat \<Rightarrow> scan_state" where
  "chunk_state r2 tindex ld =
     \<lparr>local = Reader0 (take (chunk_end r2 ld - tell r2) (drop (tell r2) (data r2))),
      status = None, active = Map.empty,
      tr = (if tell r2 + ld > len r2
            then t_err ((TrackReport0 tindex)\<lparr>length_declared := ld\<rparr>)
                   (Pista tindex Longitud_excede) (int (tell r2))
            else (TrackReport0 tindex)\<lparr>length_declared := ld\<rparr>)\<rparr>"

definition track_sees_eot :: "Reader \<Rightarrow> nat \<Rightarrow> bool \<Rightarrow> bool \<Rightarrow> bool" where
  "track_sees_eot r tindex pair_notes strict =
     (case read r 4 of
        Inl e \<Rightarrow> False
      | Inr (magic, r1) \<Rightarrow>
          magic = MAGIC_MTRK \<and>
          (case read r1 4 of
             Inl e \<Rightarrow> False
           | Inr (lb, r2) \<Rightarrow>
               (case read_uint32_be lb of
                  Inl e \<Rightarrow> False
                | Inr ld \<Rightarrow>
                    eot_seen tindex (tell r2) pair_notes strict (chunk_state r2 tindex ld))))"

text \<open>A file whose track chunk holds one Note-On of pitch \<open>2F\<close> and no End-of-Track
  event.\<close>

definition note_only_file :: "byte list" where
  "note_only_file = [0x4D, 0x54, 0x68, 0x64, 0, 0, 0, 6, 0, 0, 0, 1, 0, 0x60,
                     0x4D, 0x54, 0x72, 0x6B, 0, 0, 0, 4, 0, 0x90, 0x2F, 0x40]"

section \<open>No exception leaves the event loop\<close>

text \<open>Every read of the loop body is guarded by a test of \<open>remaining\<close>, and every
  index is below the length just read, so no pass of the body ends by \<open>Raise\<close>.\<close>

lemma read_ok: "int n \<le> remaining r \<Longrightarrow> \<exists>bs r'. read r n = Inr (bs, r') \<and> length bs = n"
  by (auto simp: read_def remaining_def len_def)

lemma pair_note_off_no_raise: "0 < length dat \<Longrightarrow> snd (pair_note_off pn ch dat s) = Continue"
  by (simp add: pair_note_off_def at_def)

lemma pair_note_on_no_raise: "0 < length dat \<Longrightarrow> snd (pair_note_on pn ch dat s) = Continue"
  by (simp add: pair_note_on_def at_def)

lemma channel_stats_no_raise:
  "length dat = dl \<Longrightarrow> dl = (if st AND 0xF0 \<in> {0xC0, 0xD0} then 1 else 2) \<Longrightarrow>
   snd (channel_stats pn st dl dat s) = Continue"
  by (auto simp: channel_stats_def Let_def at_def pair_note_off_no_raise pair_note_on_no_raise
      split: sum.splits)

lemma channel_msg_no_raise: "snd (channel_msg t start pn st s) \<noteq> Raise e"
proof (cases "remaining (local s) < int (if st AND 0xF0 \<in> {0xC0, 0xD0} then 1 else 2)")
  case True
  then show ?thesis by (simp add: channel_msg_def Let_def)
next
  case False
  define dl :: nat where "dl = (if st AND 0xF0 \<in> {0xC0, 0xD0} then 1 else 2)"
  from False have "int dl \<le> remaining (local s)" by (simp add: dl_def)
  from read_ok[OF this] obtain bs r' where rd: "read (local s) dl = Inr (bs, r')" "length bs = dl"
    by blast
  have "snd (channel_msg t start pn st s) = Continue"
    using False rd channel_stats_no_raise[of bs dl st]
    by (simp add: channel_msg_def Let_def dl_def)
  then show ?thesis by simp
qed

lemma meta_body_no_raise:
  "length md = ln \<Longrightarrow> snd (meta_body t start strict m ln md s) \<noteq> Raise e"
  by (auto simp: meta_body_def Let_def at_def bindE_def read_def remaining_def len_def
      split: list.splits)

lemma meta_msg_no_raise: "snd (meta_msg t start strict s) \<noteq> Raise e"
proof (cases "remaining (local s) < 2")
  case True
  then show ?thesis by (simp add: meta_msg_def)
next
  case False
  then have "int 1 \<le> remaining (local s)" by simp
  from read_ok[OF this] obtain mb l1 where rd: "read (local s) 1 = Inr (mb, l1)" "length mb = 1"
    by blast
  then obtain m where m: "at mb 0 = Inr m" by (auto simp: at_def)
  obtain l2 x where v: "read_vlq l1 = (l2, x)" by (cases "read_vlq l1")
  show ?thesis
  proof (cases x)
    case (Inl e')
    with False rd m v show ?thesis by (simp add: meta_msg_def)
  next
    case (Inr ln)
    show ?thesis
    proof (cases "remaining l2 < int ln")
      case True
      with False rd m v Inr show ?thesis by (simp add: meta_msg_def)
    next
      case F2: False
      then have "int ln \<le> remaining l2" by simp
      from read_ok[OF this] obtain md l3 where rd2: "read l2 ln = Inr (md, l3)" "length md = ln"
        by blast
      with False rd m v Inr F2 meta_body_no_raise[of md ln] show ?thesis
        by (simp add: meta_msg_def)
    qed
  qed
qed

lemma sysex_msg_no_raise: "snd (sysex_msg t start s) \<noteq> Raise e"
proof -
  obtain l1 x where v: "read_vlq (local s) = (l1, x)" by (cases "read_vlq (local s)")
  show ?thesis
  proof (cases x)
    case (Inl e')
    with v show ?thesis by (simp add: sysex_msg_def)
  next
    case (Inr ln)
    show ?thesis
    proof (cases "remaining l1 < int ln")
      case True
      with v Inr show ?thesis by (simp add: sysex_msg_def)
    next
      case False
      then have "int ln \<le> remaining l1" by simp
      from read_ok[OF this] obtain md l2 where "read l1 ln = Inr (md, l2)" by blast
      with v Inr False show ?thesis by (simp add: sysex_msg_def)
    qed
  qed
qed

lemma dispatch_no_raise: "snd (dispatch t start pn strict s) \<noteq> Raise e"
  by (simp add: dispatch_def channel_msg_no_raise meta_msg_no_raise sysex_msg_no_raise
      split: option.splits)

lemma scan_step_no_raise: "snd (scan_step t start pn strict s) \<noteq> Raise e"
proof -
  obtain l1 x where v: "read_vlq (local s) = (l1, x)" by (cases "read_vlq (local s)")
  show ?thesis
  proof (cases x)
    case (Inl e')
    with v show ?thesis by (simp add: scan_step_def)
  next
    case (Inr dt)
    show ?thesis
    proof (cases "remaining l1 \<le> 0")
      case True
      with v Inr show ?thesis by (simp add: scan_step_def)
    next
      case False
      then have "int 1 \<le> remaining l1" by simp
      from read_ok[OF this] obtain bs l2 where rd: "read l1 1 = Inr (bs, l2)" "length bs = 1"
        by blast
      then obtain b where b: "at bs 0 = Inr b" by (auto simp: at_def)
      with v Inr False rd show ?thesis
        by (simp add: scan_step_def dispatch_no_raise)
    qed
  qed
qed

lemma scan_no_raise: "snd (scan t start pn strict s) = None"
proof (induction t start pn strict s rule: scan.induct)
  case (1 tindex start pair_notes strict s)
  show ?case
  proof (cases "remaining (local s) > 0")
    case False
    then show ?thesis by (simp add: scan.simps)
  next
    case True
    obtain s' f where st: "scan_step tindex start pair_notes strict s = (s', f)"
      by (cases "scan_step tindex start pair_notes strict s")
    show ?thesis
    proof (cases f)
      case Continue
      have "snd (scan tindex start pair_notes strict s') = None"
        using "1.IH" True st Continue by simp
      with True st Continue show ?thesis
        by (subst scan.simps) simp
    next
      case Break
      with True st show ?thesis by (subst scan.simps) simp
    next
      case (Raise e)
      with st scan_step_no_raise[of tindex start pair_notes strict s e] show ?thesis by simp
    qed
  qed
qed

section \<open>Arithmetic of the decoders\<close>

text \<open>The shifts and ORs of the source assemble disjoint bit fields, so they are
  sums of multiples of powers of two.\<close>

lemma or_push_take: "push_bit k (v::nat) OR take_bit k y = push_bit k v + take_bit k y"
  by (rule disjunctive_add[symmetric]) (auto simp: bit_push_bit_iff bit_take_bit_iff)

lemma and_7F: "unat ((b::byte) AND 0x7F) = take_bit 7 (unat b)"
proof -
  have m: "(0x7F :: byte) = mask 7" by (simp add: mask_eq_exp_minus_1)
  have "unat (b AND mask 7) = unat (take_bit 7 b)" by (simp only: take_bit_eq_mask)
  also have "\<dots> = take_bit 7 (unat b)" by (simp add: unsigned_take_bit_eq)
  finally show ?thesis by (simp only: m)
qed

lemma low7: "push_bit 7 (v::nat) OR unat ((b::byte) AND 0x7F) = 128 * v + unat b mod 128"
proof -
  have "push_bit 7 v OR unat (b AND 0x7F) = push_bit 7 v OR take_bit 7 (unat b)"
    by (simp only: and_7F)
  also have "\<dots> = push_bit 7 v + take_bit 7 (unat b)" by (rule or_push_take)
  also have "\<dots> = 128 * v + unat b mod 128" by (simp add: push_bit_eq_mult take_bit_eq_mod)
  finally show ?thesis .
qed

lemma unat_byte_take: "take_bit 8 (unat (b::byte)) = unat b"
  by (rule take_bit_nat_eq_self) (use unsigned_less[of b, where 'a=nat] in simp)

lemma be16: "push_bit 8 (unat (a::byte)) OR unat (b::byte) = 256 * unat a + unat b"
  using or_push_take[of 8 "unat a" "unat b"] by (simp add: unat_byte_take push_bit_eq_mult)

lemma be24: "push_bit 16 (unat (a::byte)) OR push_bit 8 (unat (b::byte)) OR unat (c::byte) = 65536 * unat a + 256 * unat b + unat c"
proof -
  have "push_bit 16 (unat a) OR (push_bit 8 (unat b) OR unat c)
        = push_bit 16 (unat a) OR take_bit 16 (256 * unat b + unat c)"
  proof -
    have "256 * unat b + unat c < 2 ^ 16"
      using unsigned_less[of b, where 'a=nat] unsigned_less[of c, where 'a=nat] by simp
    then have "take_bit 16 (256 * unat b + unat c) = 256 * unat b + unat c"
      by (rule take_bit_nat_eq_self)
    then show ?thesis by (simp add: be16)
  qed
  also have "\<dots> = push_bit 16 (unat a) + take_bit 16 (256 * unat b + unat c)"
    by (rule or_push_take)
  also have "take_bit 16 (256 * unat b + unat c) = 256 * unat b + unat c"
  proof -
    have "256 * unat b + unat c < 2 ^ 16"
      using unsigned_less[of b, where 'a=nat] unsigned_less[of c, where 'a=nat] by simp
    then show ?thesis by (rule take_bit_nat_eq_self)
  qed
  finally show ?thesis by (simp add: push_bit_eq_mult or.assoc)
qed

lemma read_vlq_loop_numeral:
  "read_vlq_loop (numeral n) val r =
     (case read r 1 of
        Inl e \<Rightarrow> (r, Inl e)
      | Inr (bs, r') \<Rightarrow>
          (case at bs 0 of
             Inl e \<Rightarrow> (r', Inl e)
           | Inr byte \<Rightarrow>
               (let val' = push_bit 7 val OR unat (byte AND 0x7F)
                in if byte AND 0x80 = 0 then (r', Inr val')
                   else read_vlq_loop (pred_numeral n) val' r')))"
  by (simp add: numeral_eq_Suc)

section \<open>The variable-length quantity decoder\<close>

lemma read_one:
  "length pre = pos r \<Longrightarrow> data r = pre @ c # xs \<Longrightarrow> read r 1 = Inr ([c], r\<lparr>pos := pos r + 1\<rparr>)"
  by (simp add: read_def len_def)

lemma read_vlq_loop_bound: "pos (fst (read_vlq_loop k v r)) \<le> pos r + k"
proof (induction k arbitrary: v r)
  case 0
  show ?case by simp
next
  case (Suc k)
  show ?case
  proof (cases "read r 1")
    case (Inl e)
    then show ?thesis by simp
  next
    case (Inr p)
    obtain bs r1 where p: "p = (bs, r1)" by (cases p)
    from Inr p have r1: "pos r1 = pos r + 1" "length bs = 1" using read_Inr by blast+
    then obtain b where b: "at bs 0 = Inr b" by (auto simp: at_def)
    from Suc.IH[of "push_bit 7 v OR unat (b AND 0x7F)" r1] Inr p b r1
    show ?thesis by (simp add: Let_def)
  qed
qed

lemma read_vlq_loop_stop:
  "length pre = pos r \<Longrightarrow> data r = pre @ cs @ b # post \<Longrightarrow> \<forall>c\<in>set cs. c AND 0x80 \<noteq> 0 \<Longrightarrow>
   b AND 0x80 = 0 \<Longrightarrow> length cs < k \<Longrightarrow>
   read_vlq_loop k v r
   = (r\<lparr>pos := pos r + length cs + 1\<rparr>,
      Inr (foldl (\<lambda>v b. 128 * v + unat b mod 128) v (cs @ [b])))"
proof (induction cs arbitrary: pre k v r)
  case Nil
  then obtain k' where k: "k = Suc k'" by (cases k) auto
  from Nil have "read r 1 = Inr ([b], r\<lparr>pos := pos r + 1\<rparr>)"
    by (intro read_one[of pre r b post]) auto
  with Nil k show ?case by (simp add: at_def low7)
next
  case (Cons c cs)
  then obtain k' where k: "k = Suc k'" by (cases k) auto
  let ?r1 = "r\<lparr>pos := pos r + 1\<rparr>"
  from Cons.prems have rd: "read r 1 = Inr ([c], ?r1)"
    by (intro read_one[of pre r c "cs @ b # post"]) auto
  from Cons.prems have c: "c AND 0x80 \<noteq> 0" by simp
  have "read_vlq_loop k' (128 * v + unat c mod 128) ?r1
        = (?r1\<lparr>pos := pos ?r1 + length cs + 1\<rparr>,
           Inr (foldl (\<lambda>v b. 128 * v + unat b mod 128) (128 * v + unat c mod 128) (cs @ [b])))"
    using Cons.prems k by (intro Cons.IH[of "pre @ [c]"]) auto
  with rd c k show ?case by (simp add: at_def low7)
qed

lemma read_vlq_loop_too_long:
  "length pre = pos r \<Longrightarrow> data r = pre @ cs @ post \<Longrightarrow> \<forall>c\<in>set cs. c AND 0x80 \<noteq> 0 \<Longrightarrow>
   k \<le> length cs \<Longrightarrow> read_vlq_loop k v r = (r\<lparr>pos := pos r + k\<rparr>, Inl ValueError)"
proof (induction k arbitrary: pre cs v r)
  case 0
  show ?case by simp
next
  case (Suc k)
  then obtain c cs' where cs: "cs = c # cs'" by (cases cs) auto
  let ?r1 = "r\<lparr>pos := pos r + 1\<rparr>"
  from Suc.prems cs have rd: "read r 1 = Inr ([c], ?r1)"
    by (intro read_one[of pre r c "cs' @ post"]) auto
  from Suc.prems cs have c: "c AND 0x80 \<noteq> 0" by simp
  have "read_vlq_loop k (128 * v + unat c mod 128) ?r1 = (?r1\<lparr>pos := pos ?r1 + k\<rparr>, Inl ValueError)"
    using Suc.prems cs by (intro Suc.IH[of "pre @ [c]" _ cs']) auto
  with rd c show ?case by (simp add: at_def low7)
qed

text \<open>
  C5. With the cursor in front of the bytes \<open>cs\<close>, all with the high bit set, the
  decoder never moves the cursor by more than 4 bytes; when fewer than 4 such bytes
  are followed by a byte \<open>b\<close> with the high bit clear, it returns the value
  accumulated from the low 7 bits of \<open>cs\<close> and \<open>b\<close>, most significant first, with
  the cursor after \<open>b\<close>; when there are 4 or more of them (5 continuation bytes, for
  one), it fails with the too-long error after the fourth, whatever bytes come before
  the cursor and after them.
\<close>

theorem read_vlq_decodes:
  assumes "length pre = pos r" and "data r = pre @ cs @ rest" and "\<forall>c\<in>set cs. c AND 0x80 \<noteq> 0"
  shows "pos (fst (read_vlq r)) \<le> pos r + 4
       \<and> (\<forall>b post. length cs < 4 \<and> rest = b # post \<and> b AND 0x80 = 0 \<longrightarrow>
            read_vlq r = (r\<lparr>pos := pos r + length cs + 1\<rparr>, Inr (vlq_value_spec (cs @ [b]))))
       \<and> (4 \<le> length cs \<longrightarrow> read_vlq r = (r\<lparr>pos := pos r + 4\<rparr>, Inl ValueError))"
proof (intro conjI allI impI)
  show "pos (fst (read_vlq r)) \<le> pos r + 4"
    unfolding read_vlq_def by (rule read_vlq_loop_bound)
next
  fix b post
  assume "length cs < 4 \<and> rest = b # post \<and> b AND 0x80 = 0"
  with assms show "read_vlq r = (r\<lparr>pos := pos r + length cs + 1\<rparr>, Inr (vlq_value_spec (cs @ [b])))"
    unfolding read_vlq_def vlq_value_spec_def by (intro read_vlq_loop_stop[of pre]) auto
next
  assume "4 \<le> length cs"
  with assms show "read_vlq r = (r\<lparr>pos := pos r + 4\<rparr>, Inl ValueError)"
    unfolding read_vlq_def by (intro read_vlq_loop_too_long[of pre r cs rest]) auto
qed

theorem read_vlq_decodes_witness:
  "read_vlq \<lparr>data = [0x00, 0x81, 0x48, 0xFF], pos = 1\<rparr>
     = (\<lparr>data = [0x00, 0x81, 0x48, 0xFF], pos = 3\<rparr>, Inr 200)
   \<and> read_vlq \<lparr>data = [0x90, 0xFF, 0xFF, 0xFF, 0xFF, 0xFF, 0x00], pos = 1\<rparr>
     = (\<lparr>data = [0x90, 0xFF, 0xFF, 0xFF, 0xFF, 0xFF, 0x00], pos = 5\<rparr>, Inl ValueError)"
proof -
  have a: "read_vlq \<lparr>data = [0x00, 0x81, 0x48, 0xFF], pos = 1\<rparr>
     = (\<lparr>data = [0x00, 0x81, 0x48, 0xFF], pos = 3\<rparr>, Inr 200)"
    using read_vlq_decodes[of "[0x00]" "\<lparr>data = [0x00, 0x81, 0x48, 0xFF], pos = 1\<rparr>" "[0x81]" "[0x48, 0xFF]"]
    by (simp add: vlq_value_spec_def)
  have b: "read_vlq \<lparr>data = [0x90, 0xFF, 0xFF, 0xFF, 0xFF, 0xFF, 0x00], pos = 1\<rparr>
     = (\<lparr>data = [0x90, 0xFF, 0xFF, 0xFF, 0xFF, 0xFF, 0x00], pos = 5\<rparr>, Inl ValueError)"
    using read_vlq_decodes[of "[0x90]" "\<lparr>data = [0x90, 0xFF, 0xFF, 0xFF, 0xFF, 0xFF, 0x00], pos = 1\<rparr>"
        "[0xFF, 0xFF, 0xFF, 0xFF, 0xFF]" "[0x00]"]
    by simp
  from a b show ?thesis by simp
qed

section \<open>Division validation\<close>

lemma hi_bit: "unat (w::16 word) AND 0x8000 \<noteq> 0 \<longleftrightarrow> bit w 15"
proof -
  have "(0x8000::nat) = 2 ^ 15" by simp
  then have "unat w AND 0x8000 = 0 \<longleftrightarrow> \<not> bit (unat w) 15"
    by (simp only: and_exp_eq_0_iff_not_bit)
  then show ?thesis by (simp add: bit_unsigned_iff)
qed

lemma and_FF_nat: "(x::nat) AND 0xFF = take_bit 8 x"
proof -
  have "(0xFF::nat) = mask 8" by (simp add: mask_eq_exp_minus_1)
  then show ?thesis by (simp only: take_bit_eq_mask)
qed

lemma upper_byte: "drop_bit 8 (unat (w::16 word)) AND 0xFF = unat (ucast (drop_bit 8 w) :: 8 word)"
  by (simp only: and_FF_nat unsigned_ucast_eq unat_drop_bit_eq) simp

lemma low_byte: "unat (w::16 word) AND 0xFF = 0 \<longleftrightarrow> w AND 0xFF = 0"
proof -
  have "unat (w AND 0xFF) = unat w AND unat (0xFF :: 16 word)" by (rule unsigned_and_eq)
  then have "unat (w AND 0xFF) = unat w AND 0xFF" by simp
  then show ?thesis by (metis unat_eq_0)
qed

lemma sint_neg: "bit (u::8 word) 7 \<Longrightarrow> sint u = int (unat u) - 256"
proof -
  assume b: "bit u 7"
  have "sint u = signed_take_bit 7 (uint u)" by (simp add: sint_uint)
  also have "\<dots> = take_bit 8 (uint u) - 2 ^ 8 * of_bool (bit (uint u) 7)"
    by (simp add: signed_take_bit_eq_take_bit_minus)
  also have "take_bit 8 (uint u) = uint u"
    by (rule take_bit_int_eq_self) (use uint_lt2p[of u] in simp_all)
  also have "bit (uint u) 7 = bit u 7" by (simp add: bit_unsigned_iff)
  finally show ?thesis using b by simp
qed

lemma upper_bit: "bit (ucast (drop_bit 8 (w::16 word)) :: 8 word) 7 \<longleftrightarrow> bit w 15"
  by (simp add: bit_ucast_iff bit_drop_bit_eq)

lemma bit7_ge: "bit (u::8 word) 7 \<Longrightarrow> 128 \<le> unat u"
proof -
  assume "bit u 7"
  then have "bit (unat u) 7" by (simp add: bit_unsigned_iff)
  then have "odd (unat u div 2 ^ 7)" using bit_iff_odd[of "unat u" 7] by blast
  then show ?thesis by (cases "unat u < 128") auto
qed

lemma low15: "\<not> bit (w::16 word) 15 \<Longrightarrow> unat (w AND 0x7FFF) = unat w"
proof -
  assume nb: "\<not> bit w 15"
  have m: "(0x7FFF :: 16 word) = mask 15" by (simp add: mask_eq_exp_minus_1)
  have "w AND mask 15 = w"
  proof (rule bit_eqI)
    fix n
    show "bit (w AND mask 15) n = bit w n" 
      using nb bit_imp_le_length[of w n]
      by (cases "n = 15") (auto simp: bit_and_iff bit_mask_iff)
  qed
  with m show ?thesis by simp
qed

lemma smpte_fps_eq: "bit (w::16 word) 15 \<Longrightarrow> smpte_fps (unat w) = smpte_fps_spec w"
proof -
  assume b: "bit w 15"
  let ?u = "ucast (drop_bit 8 w) :: 8 word"
  from b have u7: "bit ?u 7" by (simp only: upper_bit)
  from u7 have ge: "128 \<le> unat ?u" by (rule bit7_ge)
  from u7 have "sint ?u = int (unat ?u) - 256" by (rule sint_neg)
  moreover from ge have "128 \<le> uint ?u"
    using of_nat_le_iff[of 128 "unat ?u", where 'a=int] by simp
  ultimately show ?thesis
    by (simp add: smpte_fps_def smpte_fps_spec_def upper_byte Let_def)
qed

text \<open>
  C6. For every 16-bit division value \<open>w\<close>: with the high bit set, the errors added
  are exactly the ticks-per-frame error when the low byte is 0 and none otherwise, and
  the warnings added are exactly the unusual-frame-rate warning when the negated
  two's-complement value of the upper byte is outside {24, 25, 29, 30} and none
  otherwise, so the frame rate never adds an error; with the high bit clear, the
  PPQN error is added exactly when the 15-bit value is not greater than 0, and no
  warning is added.
\<close>

theorem validate_division_cases:
  fixes w :: "16 word"
  shows "(bit w 15 \<longrightarrow>
            errors (validate_division (unat w) rep)
              = errors rep @ (if w AND 0xFF = 0 then [Ticks_frame_cero] else [])
          \<and> warnings (validate_division (unat w) rep)
              = warnings rep @ (if smpte_fps_spec w \<in> {24, 25, 29, 30} then []
                                else [SMPTE_fps_inusual (smpte_fps_spec w)]))
       \<and> (\<not> bit w 15 \<longrightarrow>
            errors (validate_division (unat w) rep)
              = errors rep @ (if 0 < unat (w AND 0x7FFF) then [] else [Division_PPQN])
          \<and> warnings (validate_division (unat w) rep) = warnings rep)"
proof (cases "bit w 15")
  case True
  then have hb: "unat w AND 0x8000 \<noteq> 0" by (simp only: hi_bit)
  from True have fps: "smpte_fps (unat w) = smpte_fps_spec w" by (rule smpte_fps_eq)
  show ?thesis
    using True hb low_byte[of w]
    by (simp add: validate_division_def Let_def fps f_err_def f_warn_def)
next
  case False
  then have hb: "unat w AND 0x8000 = 0" using hi_bit[of w] by blast
  from False have "unat (w AND 0x7FFF) = unat w" by (rule low15)
  with False hb show ?thesis
    by (simp add: validate_division_def f_err_def)
qed

theorem validate_division_cases_witness:
  "errors (validate_division (unat (0xE700 :: 16 word)) (FileReport0 ''a'')) = [Ticks_frame_cero]
   \<and> warnings (validate_division (unat (0xE700 :: 16 word)) (FileReport0 ''a'')) = []
   \<and> errors (validate_division (unat (0xF628 :: 16 word)) (FileReport0 ''a'')) = []
   \<and> warnings (validate_division (unat (0xF628 :: 16 word)) (FileReport0 ''a'')) = [SMPTE_fps_inusual 10]
   \<and> errors (validate_division (unat (0 :: 16 word)) (FileReport0 ''a'')) = [Division_PPQN]
   \<and> errors (validate_division (unat (96 :: 16 word)) (FileReport0 ''a'')) = []"
  using validate_division_cases[of "0xE700" "FileReport0 ''a''"]
    validate_division_cases[of "0xF628" "FileReport0 ''a''"]
    validate_division_cases[of "0" "FileReport0 ''a''"]
    validate_division_cases[of "96" "FileReport0 ''a''"]
  by (simp add: smpte_fps_spec_def FileReport0_def bit_numeral_word_iff)

section \<open>Channel voice messages\<close>

lemma and_F0: "(st::byte) AND 0xF0 = push_bit 4 (drop_bit 4 st)"
proof -
  have m: "(0xF0::byte) = NOT (mask 4)" by (simp add: mask_eq_exp_minus_1)
  have "st AND NOT (mask 4) = push_bit 4 (drop_bit 4 st)"
    by (rule bit_eqI) (auto simp: bit_and_iff bit_not_iff bit_mask_iff bit_push_bit_iff bit_drop_bit_eq)
  with m show ?thesis by simp
qed

lemma unat_and_F0: "unat ((st::byte) AND 0xF0) = 16 * (unat st div 16)"
proof -
  have lt: "unat st < 256" using unsigned_less[of st, where 'a=nat] by simp
  have "unat (push_bit 4 (drop_bit 4 st)) = take_bit 8 (push_bit 4 (drop_bit 4 (unat st)))"
    by (simp add: unsigned_push_bit_eq unat_drop_bit_eq)
  also have "push_bit 4 (drop_bit 4 (unat st)) = 16 * (unat st div 16)"
    by (simp add: push_bit_eq_mult drop_bit_eq_div)
  also have "take_bit 8 (16 * (unat st div 16)) = 16 * (unat st div 16)"
    by (rule take_bit_nat_eq_self) (use lt in simp)
  finally show ?thesis by (simp only: and_F0)
qed

lemma status_range:
  assumes "(st::byte) AND 0xF0 = m" and "m \<in> {0x80, 0x90, 0xA0, 0xB0, 0xC0, 0xD0, 0xE0}"
  shows "0x80 \<le> st \<and> st \<le> 0xEF"
proof -
  from assms have "unat (st AND 0xF0) \<in> {128, 144, 160, 176, 192, 208, 224}" by auto
  then have "16 * (unat st div 16) \<in> {128, 144, 160, 176, 192, 208, 224}"
    by (simp only: unat_and_F0)
  then have "128 \<le> unat st \<and> unat st \<le> 239" by auto
  then show ?thesis by (simp add: word_le_nat_alt)
qed

lemma check_data_range_stats: "stats (check_data_range dat t tindex st off) = stats t"
  by (induction dat) (simp_all add: t_err_def)

lemma check_data_range_eot:
  "has_end_of_track (check_data_range dat t tindex st off) = has_end_of_track t"
  by (induction dat) (simp_all add: t_err_def)

text \<open>
  C7. When the running status is a Note-On (\<open>0x90\<close> to \<open>0x9F\<close>) and the two data
  bytes read are a pitch and the velocity 0, the dispatch goes on with the scan, the
  note-off counter is one more and the note-on counter is unchanged; with
  \<open>pair_notes\<close> the active-note count of (channel, pitch) becomes its old value
  (0 when absent) minus one, but not below zero, and without \<open>pair_notes\<close> the
  dictionary is unchanged.
\<close>

theorem note_on_velocity_zero:
  assumes st: "status s = Some st" "st AND 0xF0 = 0x90"
    and rd: "read (local s) 2 = Inr ([pitch, 0], l1)"
    and res: "dispatch tindex start pair_notes strict s = (s', f)"
  shows "f = Continue
       \<and> note_off (stats (tr s')) = note_off (stats (tr s)) + 1
       \<and> note_on (stats (tr s')) = note_on (stats (tr s))
       \<and> (pair_notes \<longrightarrow>
            active s' = (active s)((st AND 0x0F, pitch) \<mapsto>
                          max 0 (active_get (active s) (st AND 0x0F, pitch) - 1))
            \<and> 0 \<le> active_get (active s') (st AND 0x0F, pitch))
       \<and> (\<not> pair_notes \<longrightarrow> active s' = active s)"
proof -
  from status_range[OF st(2)] have rng: "0x80 \<le> st" "st \<le> 0xEF" by simp_all
  from rd have rem: "\<not> remaining (local s) < 2"
    by (auto simp: read_def remaining_def len_def split: if_splits)
  define t1 where "t1 = check_data_range [pitch, 0] (tr s) tindex st (int start + int (tell l1) - int 2)"
  have t1: "stats t1 = stats (tr s)" unfolding t1_def by (rule check_data_range_stats)
  define s1 where "s1 = s\<lparr>local := l1, tr := t1\<rparr>"
  from res st rng rem rd have "channel_stats pair_notes st 2 [pitch, 0] s1 = (s', f)"
    unfolding dispatch_def channel_msg_def s1_def t1_def by (simp add: Let_def)
  then have "pair_note_off pair_notes (st AND 0x0F) [pitch, 0]
               (s_stats (\<lambda>x. x\<lparr>note_off := note_off x + 1\<rparr>) s1) = (s', f)"
    using st(2) by (simp add: channel_stats_def Let_def at_def)
  then show ?thesis
    using t1 by (auto simp: pair_note_off_def at_def s_stats_def s1_def active_get_def
        split: if_splits)
qed

theorem note_on_velocity_zero_witness:
  "snd (dispatch 0 22 True False (note_state (Map.empty((1, 0x3C) \<mapsto> 2)))) = Continue
   \<and> note_off (stats (tr (fst (dispatch 0 22 True False (note_state (Map.empty((1, 0x3C) \<mapsto> 2))))))) = 1
   \<and> note_on (stats (tr (fst (dispatch 0 22 True False (note_state (Map.empty((1, 0x3C) \<mapsto> 2))))))) = 0
   \<and> active (fst (dispatch 0 22 True False (note_state (Map.empty((1, 0x3C) \<mapsto> 2))))) (1, 0x3C) = Some 1
   \<and> active (fst (dispatch 0 22 True False (note_state Map.empty))) (1, 0x3C) = Some 0
   \<and> active (fst (dispatch 0 22 False False (note_state Map.empty))) (1, 0x3C) = None"
  using note_on_velocity_zero[of "note_state (Map.empty((1, 0x3C) \<mapsto> 2))" "0x91" "0x3C"
      "\<lparr>data = [0x3C, 0x00], pos = 2\<rparr>" 0 22 True False
      "fst (dispatch 0 22 True False (note_state (Map.empty((1, 0x3C) \<mapsto> 2))))"
      "snd (dispatch 0 22 True False (note_state (Map.empty((1, 0x3C) \<mapsto> 2))))"]
    note_on_velocity_zero[of "note_state Map.empty" "0x91" "0x3C"
      "\<lparr>data = [0x3C, 0x00], pos = 2\<rparr>" 0 22 True False
      "fst (dispatch 0 22 True False (note_state Map.empty))"
      "snd (dispatch 0 22 True False (note_state Map.empty))"]
    note_on_velocity_zero[of "note_state Map.empty" "0x91" "0x3C"
      "\<lparr>data = [0x3C, 0x00], pos = 2\<rparr>" 0 22 False False
      "fst (dispatch 0 22 False False (note_state Map.empty))"
      "snd (dispatch 0 22 False False (note_state Map.empty))"]
  by (simp add: note_state_def read_def len_def active_get_def TrackReport0_def TrackStats0_def)

section \<open>Meta events\<close>

lemma read_vlq_loop_le_len:
  "read_vlq_loop k v r = (r', x) \<Longrightarrow> pos r \<le> len r \<Longrightarrow> pos r' \<le> len r"
proof (induction k arbitrary: v r)
  case 0
  then show ?case by simp
next
  case (Suc k)
  show ?case
  proof (cases "read r 1")
    case (Inl e)
    with Suc.prems show ?thesis by simp
  next
    case (Inr p)
    obtain bs r1 where p: "p = (bs, r1)" by (cases p)
    from Inr p have r1: "data r1 = data r" "pos r1 = pos r + 1" "length bs = 1" "pos r1 \<le> len r"
      using read_Inr by blast+
    then obtain b where b: "at bs 0 = Inr b" by (auto simp: at_def)
    have len: "len r1 = len r" using r1 by (simp add: len_def)
    show ?thesis
    proof (cases "b AND 0x80 = 0")
      case True
      with Suc.prems Inr p b r1 show ?thesis by (auto simp: Let_def)
    next
      case False
      with Suc.prems Inr p b
      have "read_vlq_loop k (push_bit 7 v OR unat (b AND 0x7F)) r1 = (r', x)" by (simp add: Let_def)
      from Suc.IH[OF this] r1 len show ?thesis by simp
    qed
  qed
qed

lemma read_vlq_le_len: "read_vlq r = (r', x) \<Longrightarrow> pos r \<le> len r \<Longrightarrow> pos r' \<le> len r"
  unfolding read_vlq_def by (rule read_vlq_loop_le_len)

text \<open>
  C8. For a meta event whose type byte is \<open>0x51\<close> and whose length decodes to \<open>ln\<close>:
  when \<open>ln\<close> is not 3, exactly one error is added, whatever \<open>strict\<close> is (the
  tempo-length error, or the truncated-data error when the chunk holds fewer than
  \<open>ln\<close> more bytes); when \<open>ln\<close> is 3 and the three data bytes are there, no error is
  added, and the unusual-tempo warning is added exactly when \<open>strict\<close> holds and the
  24-bit big-endian value is outside [10000, 2000000].
\<close>

theorem set_tempo_checks:
  assumes rd: "read (local s) 1 = Inr ([0x51], l1)"
    and vl: "read_vlq l1 = (l2, Inr ln)"
    and res: "meta_msg tindex start strict s = (s', f)"
  shows "(ln \<noteq> 3 \<longrightarrow>
            t_errors (tr s') = t_errors (tr s) @
              [Pista tindex (if remaining l2 < int ln then Meta_datos_truncados 0x51 else Tempo_len ln)])
       \<and> (ln = 3 \<longrightarrow> (\<forall>a b c l3. read l2 3 = Inr ([a, b, c], l3) \<longrightarrow>
            t_errors (tr s') = t_errors (tr s)
            \<and> t_warnings (tr s') = t_warnings (tr s) @
                (if strict \<and> \<not> (10000 \<le> 65536 * unat a + 256 * unat b + unat c
                                  \<and> 65536 * unat a + 256 * unat b + unat c \<le> 2000000)
                 then [Pista tindex (Tempo_inusual (65536 * unat a + 256 * unat b + unat c))]
                 else [])))"
proof -
  from rd have p1: "pos l1 = pos (local s) + 1" "data l1 = data (local s)" "pos l1 \<le> len (local s)"
    using read_Inr by blast+
  then have len1: "len l1 = len (local s)" by (simp add: len_def)
  from read_vlq_Inr[OF vl] have p2: "data l2 = data l1" "pos l1 < pos l2" by simp_all
  from read_vlq_le_len[OF vl] p1 len1 have p2': "pos l2 \<le> len l1" by simp
  from p1 p2 p2' len1 have rem: "\<not> remaining (local s) < 2"
    by (simp add: remaining_def)
  show ?thesis
  proof (intro conjI impI allI)
    assume n3: "ln \<noteq> 3"
    show "t_errors (tr s') = t_errors (tr s) @
              [Pista tindex (if remaining l2 < int ln then Meta_datos_truncados 0x51 else Tempo_len ln)]"
    proof (cases "remaining l2 < int ln")
      case True
      with res rem rd vl show ?thesis
        by (auto simp: meta_msg_def at_def s_err_def t_err_def)
    next
      case False
      then have "int ln \<le> remaining l2" by simp
      from read_ok[OF this] obtain md l3 where r3: "read l2 ln = Inr (md, l3)" by blast
      with res rem rd vl False n3 show ?thesis
        by (auto simp: meta_msg_def at_def meta_body_def Let_def s_err_def t_err_def s_stats_def)
    qed
  next
    fix a b c l3
    assume l3: "ln = 3" and r3: "read l2 3 = Inr ([a, b, c], l3)"
    from r3 have nr: "\<not> remaining l2 < 3"
      by (auto simp: read_def remaining_def len_def split: if_splits)
    from res rem rd vl l3 r3 nr
    have mb: "meta_body tindex start strict 0x51 3 [a, b, c] (s\<lparr>local := l3\<rparr>) = (s', f)"
      by (simp add: meta_msg_def at_def)
    from mb show "t_errors (tr s') = t_errors (tr s)"
      by (auto simp: meta_body_def Let_def at_def bindE_def be24 s_stats_def s_warn_def t_warn_def
          split: if_splits)
    from mb show "t_warnings (tr s') = t_warnings (tr s) @
                (if strict \<and> \<not> (10000 \<le> 65536 * unat a + 256 * unat b + unat c
                                  \<and> 65536 * unat a + 256 * unat b + unat c \<le> 2000000)
                 then [Pista tindex (Tempo_inusual (65536 * unat a + 256 * unat b + unat c))]
                 else [])"
      by (auto simp: meta_body_def Let_def at_def bindE_def be24 s_stats_def s_warn_def t_warn_def
          split: if_splits)
  qed
qed

theorem set_tempo_checks_witness:
  "t_warnings (tr (fst (meta_msg 0 22 True (meta_state [0x51, 0x03, 0x4C, 0x4B, 0x40]))))
     = [Pista 0 (Tempo_inusual 5000000)]
   \<and> t_errors (tr (fst (meta_msg 0 22 True (meta_state [0x51, 0x03, 0x4C, 0x4B, 0x40])))) = []
   \<and> t_warnings (tr (fst (meta_msg 0 22 True (meta_state [0x51, 0x03, 0x07, 0xA1, 0x20])))) = []
   \<and> t_errors (tr (fst (meta_msg 0 22 True (meta_state [0x51, 0x03, 0x07, 0xA1, 0x20])))) = []
   \<and> t_errors (tr (fst (meta_msg 0 22 False (meta_state [0x51, 0x02, 0x07, 0xA1]))))
     = [Pista 0 (Tempo_len 2)]
   \<and> t_errors (tr (fst (meta_msg 0 22 True (meta_state [0x51, 0x02, 0x07, 0xA1]))))
     = [Pista 0 (Tempo_len 2)]"
  using
    set_tempo_checks[of "meta_state [0x51, 0x03, 0x4C, 0x4B, 0x40]"
      "\<lparr>data = [0x51, 0x03, 0x4C, 0x4B, 0x40], pos = 1\<rparr>"
      "\<lparr>data = [0x51, 0x03, 0x4C, 0x4B, 0x40], pos = 2\<rparr>" 3 0 22 True
      "fst (meta_msg 0 22 True (meta_state [0x51, 0x03, 0x4C, 0x4B, 0x40]))"
      "snd (meta_msg 0 22 True (meta_state [0x51, 0x03, 0x4C, 0x4B, 0x40]))"]
    set_tempo_checks[of "meta_state [0x51, 0x03, 0x07, 0xA1, 0x20]"
      "\<lparr>data = [0x51, 0x03, 0x07, 0xA1, 0x20], pos = 1\<rparr>"
      "\<lparr>data = [0x51, 0x03, 0x07, 0xA1, 0x20], pos = 2\<rparr>" 3 0 22 True
      "fst (meta_msg 0 22 True (meta_state [0x51, 0x03, 0x07, 0xA1, 0x20]))"
      "snd (meta_msg 0 22 True (meta_state [0x51, 0x03, 0x07, 0xA1, 0x20]))"]
    set_tempo_checks[of "meta_state [0x51, 0x02, 0x07, 0xA1]"
      "\<lparr>data = [0x51, 0x02, 0x07, 0xA1], pos = 1\<rparr>"
      "\<lparr>data = [0x51, 0x02, 0x07, 0xA1], pos = 2\<rparr>" 2 0 22 False
      "fst (meta_msg 0 22 False (meta_state [0x51, 0x02, 0x07, 0xA1]))"
      "snd (meta_msg 0 22 False (meta_state [0x51, 0x02, 0x07, 0xA1]))"]
    set_tempo_checks[of "meta_state [0x51, 0x02, 0x07, 0xA1]"
      "\<lparr>data = [0x51, 0x02, 0x07, 0xA1], pos = 1\<rparr>"
      "\<lparr>data = [0x51, 0x02, 0x07, 0xA1], pos = 2\<rparr>" 2 0 22 True
      "fst (meta_msg 0 22 True (meta_state [0x51, 0x02, 0x07, 0xA1]))"
      "snd (meta_msg 0 22 True (meta_state [0x51, 0x02, 0x07, 0xA1]))"]
  by (simp add: meta_state_def read_def read_vlq_def at_def len_def remaining_def
      read_vlq_loop_numeral Let_def TrackReport0_def)

section \<open>The file report\<close>

text \<open>The equations that run the validator on a given file.\<close>

lemmas run_simps = validate_midi_file_def validate_midi_file_try_def parse_header_def
  parse_header_try_def parse_track_def parse_track_try_def track_loop.simps scan.simps
  scan_step_def dispatch_def meta_msg_def meta_body_def sysex_msg_def channel_msg_def
  channel_stats_def pair_note_off_def pair_note_on_def read_def read_vlq_def
  read_vlq_loop_numeral at_def bindE_def read_uint16_be_def read_uint32_be_def
  validate_division_def smpte_fps_def f_err_def f_warn_def t_err_def t_warn_def s_err_def
  s_warn_def s_stats_def active_get_def Reader0_def len_def remaining_def tell_def
  MAGIC_MTHD_def MAGIC_MTRK_def FileReport0_def TrackReport0_def TrackStats0_def Let_def

lemma vd_frame:
  "tracks (validate_division dv rep) = tracks rep \<and> ok (validate_division dv rep) = ok rep
   \<and> header (validate_division dv rep) = header rep
   \<and> bytes_size (validate_division dv rep) = bytes_size rep \<and> path (validate_division dv rep) = path rep"
  by (simp add: validate_division_def Let_def f_err_def f_warn_def)

lemma f_frame:
  "tracks (f_err rep m ml off) = tracks rep" "ok (f_err rep m ml off) = ok rep"
  "header (f_err rep m ml off) = header rep" "bytes_size (f_err rep m ml off) = bytes_size rep"
  "path (f_err rep m ml off) = path rep"
  "tracks (f_warn rep m ml off) = tracks rep" "ok (f_warn rep m ml off) = ok rep"
  "header (f_warn rep m ml off) = header rep" "bytes_size (f_warn rep m ml off) = bytes_size rep"
  "path (f_warn rep m ml off) = path rep"
  by (simp_all add: f_err_def f_warn_def)

lemma parse_header_try_cases:
  "parse_header_try r rep = (r', rep', x) \<Longrightarrow>
     (case x of
        Inl e \<Rightarrow> rep' = rep
      | Inr None \<Rightarrow> (\<exists>m ml off. rep' = f_err rep m ml off)
      | Inr (Some h) \<Rightarrow> tracks rep' = tracks rep \<and> ok rep' = ok rep \<and> header rep' = header rep
                       \<and> bytes_size rep' = bytes_size rep \<and> path rep' = path rep)"
  unfolding parse_header_try_def
  by (fastforce simp: Let_def vd_frame f_frame
      split: sum.splits if_splits prod.splits)

lemma parse_header_None:
  assumes "parse_header r rep = (r', rep', None)"
  shows "\<exists>m ml off. rep' = f_err rep m ml off"
proof -
  obtain r1 rep1 x where t: "parse_header_try r rep = (r1, rep1, x)"
    by (cases "parse_header_try r rep") auto
  from parse_header_try_cases[OF t] assms t show ?thesis
    by (cases x) (auto simp: parse_header_def split: option.splits)
qed


lemma parse_header_bad_magic:
  assumes "take 4 d \<noteq> MAGIC_MTHD"
  shows "\<exists>r' m ml off. parse_header (Reader0 d) rep = (r', f_err rep m ml off, None)"
proof (cases "length d < 4")
  case True
  then show ?thesis
    by (simp add: parse_header_def parse_header_try_def read_def Reader0_def len_def) blast
next
  case False
  with assms show ?thesis
    by (simp add: parse_header_def parse_header_try_def read_def Reader0_def len_def) blast
qed

text \<open>
  C1. For every file system, path and setting of the two flags, the report has
  \<open>ok\<close> true exactly when the number of file-level errors plus the number of errors of
  all its track reports is zero. The warnings do not enter: the file with the long
  header has a warning and is \<open>ok\<close>.
\<close>

theorem validate_ok_iff:
  "ok (validate_midi_file fs p pair_notes strict)
   \<longleftrightarrow> length (errors (validate_midi_file fs p pair_notes strict))
       + sum_list (map (\<lambda>t. length (t_errors t)) (tracks (validate_midi_file fs p pair_notes strict)))
       = 0"
proof (cases "fs p")
  case (Inl e)
  then show ?thesis
    by (simp add: validate_midi_file_def validate_midi_file_try_def FileReport0_def)
next
  case (Inr d)
  obtain r1 rep2 h where ph:
    "parse_header (Reader0 d) ((FileReport0 p)\<lparr>bytes_size := length d\<rparr>) = (r1, rep2, h)"
    by (cases "parse_header (Reader0 d) ((FileReport0 p)\<lparr>bytes_size := length d\<rparr>)") auto
  show ?thesis
  proof (cases h)
    case None
    with ph parse_header_None obtain m ml off where
      "rep2 = f_err ((FileReport0 p)\<lparr>bytes_size := length d\<rparr>) m ml off" by blast
    with Inr ph None show ?thesis
      by (simp add: validate_midi_file_def validate_midi_file_try_def FileReport0_def f_err_def)
  next
    case (Some hd)
    with Inr ph show ?thesis
      by (simp add: validate_midi_file_def validate_midi_file_try_def Let_def split: prod.splits)
  qed
qed

theorem validate_ok_iff_witness:
  "ok (validate_midi_file (\<lambda>_. Inr long_header_file) ''a.mid'' False False)
   \<and> warnings (validate_midi_file (\<lambda>_. Inr long_header_file) ''a.mid'' False False)
       = [Cabecera_con 7]
   \<and> \<not> ok (validate_midi_file (\<lambda>_. Inr riff_file) ''a.mid'' False False)"
  using validate_ok_iff[of "\<lambda>_. Inr long_header_file" "''a.mid''" False False]
    validate_ok_iff[of "\<lambda>_. Inr riff_file" "''a.mid''" False False]
  by (simp add: run_simps long_header_file_def riff_file_def)

text \<open>
  C3. For every input whose first 4 bytes are not \<open>MThd\<close> (an input of fewer than 4
  bytes included), the report has no header, no track report, exactly one file-level
  error and \<open>ok\<close> false; and every report without a header has no track report.
\<close>

theorem no_MThd_report:
  "(\<forall>d. fs p = Inr d \<and> take 4 d \<noteq> MAGIC_MTHD \<longrightarrow>
      header (validate_midi_file fs p pair_notes strict) = None
      \<and> tracks (validate_midi_file fs p pair_notes strict) = []
      \<and> length (errors (validate_midi_file fs p pair_notes strict)) = 1
      \<and> \<not> ok (validate_midi_file fs p pair_notes strict))
   \<and> (header (validate_midi_file fs p pair_notes strict) = None
      \<longrightarrow> tracks (validate_midi_file fs p pair_notes strict) = [])"
proof (intro conjI allI impI)
  fix d
  assume a: "fs p = Inr d \<and> take 4 d \<noteq> MAGIC_MTHD"
  then obtain r' m ml off where
    "parse_header (Reader0 d) ((FileReport0 p)\<lparr>bytes_size := length d\<rparr>)
      = (r', f_err ((FileReport0 p)\<lparr>bytes_size := length d\<rparr>) m ml off, None)"
    using parse_header_bad_magic by blast
  with a have v: "validate_midi_file fs p pair_notes strict
                  = f_err ((FileReport0 p)\<lparr>bytes_size := length d\<rparr>) m ml off"
    by (simp add: validate_midi_file_def validate_midi_file_try_def)
  show "header (validate_midi_file fs p pair_notes strict) = None"
    "tracks (validate_midi_file fs p pair_notes strict) = []"
    "length (errors (validate_midi_file fs p pair_notes strict)) = 1"
    "\<not> ok (validate_midi_file fs p pair_notes strict)"
    unfolding v by (simp_all add: f_err_def FileReport0_def)
next
  assume hn: "header (validate_midi_file fs p pair_notes strict) = None"
  show "tracks (validate_midi_file fs p pair_notes strict) = []"
  proof (cases "fs p")
    case (Inl e)
    then show ?thesis
      by (simp add: validate_midi_file_def validate_midi_file_try_def FileReport0_def)
  next
    case (Inr d)
    obtain r1 rep2 h where ph:
      "parse_header (Reader0 d) ((FileReport0 p)\<lparr>bytes_size := length d\<rparr>) = (r1, rep2, h)"
      by (cases "parse_header (Reader0 d) ((FileReport0 p)\<lparr>bytes_size := length d\<rparr>)") auto
    show ?thesis
    proof (cases h)
      case None
      with ph parse_header_None obtain m ml off where
        "rep2 = f_err ((FileReport0 p)\<lparr>bytes_size := length d\<rparr>) m ml off" by blast
      with Inr ph None show ?thesis
        by (simp add: validate_midi_file_def validate_midi_file_try_def FileReport0_def f_err_def)
    next
      case (Some hd)
      with Inr ph have "header (validate_midi_file fs p pair_notes strict) = Some hd"
        by (simp add: validate_midi_file_def validate_midi_file_try_def Let_def split: prod.splits)
      with hn show ?thesis by simp
    qed
  qed
qed

theorem no_MThd_report_witness:
  "header (validate_midi_file (\<lambda>_. Inr riff_file) ''a.mid'' True True) = None
   \<and> tracks (validate_midi_file (\<lambda>_. Inr riff_file) ''a.mid'' True True) = []
   \<and> length (errors (validate_midi_file (\<lambda>_. Inr riff_file) ''a.mid'' True True)) = 1
   \<and> \<not> ok (validate_midi_file (\<lambda>_. Inr riff_file) ''a.mid'' True True)
   \<and> tracks (validate_midi_file (\<lambda>_. Inr [0x4D, 0x54]) ''a.mid'' True True) = []"
  using no_MThd_report[of "\<lambda>_. Inr riff_file" "''a.mid''" True True]
    no_MThd_report[of "\<lambda>_. Inr [0x4D, 0x54]" "''a.mid''" True True]
  by (simp add: riff_file_def MAGIC_MTHD_def)

text \<open>
  C4. The minimal valid file gives, for either value of each flag, \<open>ok\<close> true, the
  header (0, 1, 96), no file-level error or warning, and one track report with no
  error, no warning, the End-of-Track flag set and parsed length equal to the declared
  length, 4.
\<close>

theorem minimal_file_valid:
  assumes "fs p = Inr minimal_file"
  shows "ok (validate_midi_file fs p pair_notes strict)
       \<and> header (validate_midi_file fs p pair_notes strict)
           = Some \<lparr>format_type = 0, num_tracks = 1, division = 96\<rparr>
       \<and> errors (validate_midi_file fs p pair_notes strict) = []
       \<and> warnings (validate_midi_file fs p pair_notes strict) = []
       \<and> map t_errors (tracks (validate_midi_file fs p pair_notes strict)) = [[]]
       \<and> map t_warnings (tracks (validate_midi_file fs p pair_notes strict)) = [[]]
       \<and> map has_end_of_track (tracks (validate_midi_file fs p pair_notes strict)) = [True]
       \<and> map length_parsed (tracks (validate_midi_file fs p pair_notes strict)) = [4]
       \<and> map length_declared (tracks (validate_midi_file fs p pair_notes strict)) = [4]"
  using assms by (simp add: run_simps minimal_file_def)

theorem minimal_file_valid_witness:
  "ok (validate_midi_file (\<lambda>_. Inr minimal_file) ''a.mid'' True True)
   \<and> map length_parsed (tracks (validate_midi_file (\<lambda>_. Inr minimal_file) ''a.mid'' True True))
     = map length_declared (tracks (validate_midi_file (\<lambda>_. Inr minimal_file) ''a.mid'' True True))"
  using minimal_file_valid[of "\<lambda>_. Inr minimal_file" "''a.mid''" True True]
  by simp

section \<open>The track decoder\<close>

text \<open>The sub-cursor never passes the end of its buffer, and the scan leaves the
  declared length of the report alone.\<close>

lemma channel_msg_le:
  "channel_msg t start pn st s = (s', f) \<Longrightarrow> pos (local s) \<le> len (local s) \<Longrightarrow>
   pos (local s') \<le> len (local s')"
  by (auto simp: channel_msg_def Let_def len_def split: if_splits sum.splits
      dest!: channel_stats_local read_Inr)

lemma meta_body_le:
  "meta_body t start strict m ln md s = (s', f) \<Longrightarrow> pos (local s) \<le> len (local s) \<Longrightarrow>
   pos (local s') \<le> len (local s')"
  by (auto simp: meta_body_def Let_def len_def split: if_splits sum.splits list.splits
      dest!: read_Inr)

lemma meta_msg_le:
  assumes "meta_msg t start strict s = (s', f)" and "pos (local s) \<le> len (local s)"
  shows "pos (local s') \<le> len (local s')"
proof (cases "remaining (local s) < 2")
  case True
  with assms show ?thesis by (auto simp: meta_msg_def)
next
  case False
  then have "int 1 \<le> remaining (local s)" by simp
  from read_ok[OF this] obtain mb l1 where rd: "read (local s) 1 = Inr (mb, l1)" "length mb = 1"
    by blast
  then obtain m where m: "at mb 0 = Inr m" by (auto simp: at_def)
  from read_Inr[OF rd(1)] have l1: "data l1 = data (local s)" "pos l1 \<le> len (local s)" by simp_all
  then have l1': "pos l1 \<le> len l1" by (simp add: len_def)
  obtain l2 x where v: "read_vlq l1 = (l2, x)" by (cases "read_vlq l1")
  from read_vlq_le_len[OF v l1'] read_vlq_adv[OF v] have l2: "pos l2 \<le> len l2"
    by (simp add: len_def)
  show ?thesis
  proof (cases x)
    case (Inl e')
    with assms False rd m v l2 show ?thesis by (auto simp: meta_msg_def)
  next
    case (Inr ln)
    show ?thesis
    proof (cases "remaining l2 < int ln")
      case True
      with assms False rd m v Inr l2 show ?thesis by (auto simp: meta_msg_def)
    next
      case F2: False
      then have "int ln \<le> remaining l2" by simp
      from read_ok[OF this] obtain md l3 where rd2: "read l2 ln = Inr (md, l3)" by blast
      from read_Inr[OF rd2] have "pos l3 \<le> len l3" by (simp add: len_def)
      with assms False rd m v Inr F2 rd2 meta_body_le[of t start strict m ln md "s\<lparr>local := l3\<rparr>" s' f]
      show ?thesis by (simp add: meta_msg_def)
    qed
  qed
qed

lemma sysex_msg_le:
  assumes "sysex_msg t start s = (s', f)" and "pos (local s) \<le> len (local s)"
  shows "pos (local s') \<le> len (local s')"
proof -
  obtain l1 x where v: "read_vlq (local s) = (l1, x)" by (cases "read_vlq (local s)")
  from read_vlq_le_len[OF v assms(2)] read_vlq_adv[OF v] have l1: "pos l1 \<le> len l1"
    by (simp add: len_def)
  show ?thesis
  proof (cases x)
    case (Inl e')
    with assms v l1 show ?thesis by (auto simp: sysex_msg_def)
  next
    case (Inr ln)
    show ?thesis
    proof (cases "remaining l1 < int ln")
      case True
      with assms v Inr l1 show ?thesis by (auto simp: sysex_msg_def)
    next
      case False
      then have "int ln \<le> remaining l1" by simp
      from read_ok[OF this] obtain md l2 where rd: "read l1 ln = Inr (md, l2)" by blast
      from read_Inr[OF rd] have "pos l2 \<le> len l2" by (simp add: len_def)
      with assms v Inr False rd show ?thesis by (auto simp: sysex_msg_def)
    qed
  qed
qed

lemma dispatch_le:
  "dispatch t start pn strict s = (s', f) \<Longrightarrow> pos (local s) \<le> len (local s) \<Longrightarrow>
   pos (local s') \<le> len (local s')"
  unfolding dispatch_def
  by (auto split: option.splits if_splits dest: channel_msg_le meta_msg_le sysex_msg_le)

lemma scan_step_le:
  assumes "scan_step t start pn strict s = (s', f)" and "pos (local s) \<le> len (local s)"
  shows "pos (local s') \<le> len (local s')"
proof -
  obtain l1 x where v: "read_vlq (local s) = (l1, x)" by (cases "read_vlq (local s)")
  from read_vlq_le_len[OF v assms(2)] read_vlq_adv[OF v] have l1: "pos l1 \<le> len l1"
    by (simp add: len_def)
  show ?thesis
  proof (cases x)
    case (Inl e')
    with assms v l1 show ?thesis by (auto simp: scan_step_def)
  next
    case (Inr dt)
    show ?thesis
    proof (cases "remaining l1 \<le> 0")
      case True
      with assms v Inr l1 show ?thesis by (auto simp: scan_step_def)
    next
      case False
      then have "int 1 \<le> remaining l1" by simp
      from read_ok[OF this] obtain bs l2 where rd: "read l1 1 = Inr (bs, l2)" "length bs = 1"
        by blast
      then obtain b where b: "at bs 0 = Inr b" by (auto simp: at_def)
      from read_Inr[OF rd(1)] have l2: "pos l2 \<le> len l2" by (simp add: len_def)
      then have l2': "pos (l2\<lparr>pos := pos l2 - 1\<rparr>) \<le> len (l2\<lparr>pos := pos l2 - 1\<rparr>)"
        by (simp add: len_def)
      from assms v Inr False rd b l2 l2' show ?thesis
        by (auto simp: scan_step_def split: if_splits dest!: dispatch_le)
    qed
  qed
qed

lemma scan_step_data:
  "scan_step t start pn strict s = (s', f) \<Longrightarrow> data (local s') = data (local s)"
  by (auto simp: scan_step_def Let_def split: if_splits sum.splits prod.splits
      dest!: read_Inr read_vlq_adv dispatch_adv)

lemma scan_le:
  "scan t start pn strict s = (s', x) \<Longrightarrow> pos (local s) \<le> len (local s) \<Longrightarrow>
   data (local s') = data (local s) \<and> pos (local s') \<le> len (local s')"
proof (induction t start pn strict s rule: scan.induct)
  case (1 tindex start pair_notes strict s)
  show ?case
  proof (cases "remaining (local s) > 0")
    case False
    with "1.prems" show ?thesis by (simp add: scan.simps)
  next
    case True
    obtain s1 f where st: "scan_step tindex start pair_notes strict s = (s1, f)"
      by (cases "scan_step tindex start pair_notes strict s")
    note le1 = scan_step_le[OF st "1.prems"(2)] and d1 = scan_step_data[OF st]
    show ?thesis
    proof (cases f)
      case Continue
      with True st "1.prems"(1) have "scan tindex start pair_notes strict s1 = (s', x)"
        by (subst (asm) scan.simps) simp
      with "1.IH" True st Continue le1 d1 show ?thesis by simp
    next
      case Break
      with True st "1.prems"(1) have "s' = s1" by (subst (asm) scan.simps) simp
      with le1 d1 show ?thesis by simp
    next
      case (Raise e)
      with True st "1.prems"(1) have "s' = s1" by (subst (asm) scan.simps) simp
      with le1 d1 show ?thesis by simp
    qed
  qed
qed

lemma ld_simps [simp]:
  "length_declared (t_err t m off) = length_declared t"
  "length_declared (t_warn t m off) = length_declared t"
  "length_declared (check_data_range dat t tindex st off) = length_declared t"
  "length_declared (tr (s_err tindex s tm off)) = length_declared (tr s)"
  "length_declared (tr (s_warn tindex s tm off)) = length_declared (tr s)"
  "length_declared (tr (s_stats g s)) = length_declared (tr s)"
  by (induction dat) (simp_all add: t_err_def t_warn_def s_err_def s_warn_def s_stats_def)

lemma pair_note_ld:
  "length_declared (tr (fst (pair_note_off pn ch dat s))) = length_declared (tr s)"
  "length_declared (tr (fst (pair_note_on pn ch dat s))) = length_declared (tr s)"
  by (simp_all add: pair_note_off_def pair_note_on_def split: sum.splits)

lemma channel_stats_ld:
  "length_declared (tr (fst (channel_stats pn st dl dat s))) = length_declared (tr s)"
  by (simp add: channel_stats_def Let_def pair_note_ld split: sum.splits)

lemma channel_msg_ld:
  "length_declared (tr (fst (channel_msg t start pn st s))) = length_declared (tr s)"
  by (simp add: channel_msg_def Let_def channel_stats_ld split: sum.splits prod.splits)

lemma meta_body_ld:
  "length_declared (tr (fst (meta_body t start strict m ln md s))) = length_declared (tr s)"
  by (simp add: meta_body_def Let_def split: sum.splits prod.splits list.splits)

lemma meta_msg_ld:
  "length_declared (tr (fst (meta_msg t start strict s))) = length_declared (tr s)"
  by (simp add: meta_msg_def Let_def meta_body_ld split: sum.splits prod.splits)

lemma sysex_msg_ld:
  "length_declared (tr (fst (sysex_msg t start s))) = length_declared (tr s)"
  by (simp add: sysex_msg_def Let_def split: sum.splits prod.splits)

lemma dispatch_ld:
  "length_declared (tr (fst (dispatch t start pn strict s))) = length_declared (tr s)"
  by (simp add: dispatch_def channel_msg_ld meta_msg_ld sysex_msg_ld split: option.splits)

lemma scan_step_ld:
  "length_declared (tr (fst (scan_step t start pn strict s))) = length_declared (tr s)"
  by (simp add: scan_step_def Let_def dispatch_ld split: sum.splits prod.splits)

lemma scan_ld:
  "length_declared (tr (fst (scan t start pn strict s))) = length_declared (tr s)"
proof (induction t start pn strict s rule: scan.induct)
  case (1 tindex start pair_notes strict s)
  show ?case
  proof (cases "remaining (local s) > 0")
    case False
    then show ?thesis by (simp add: scan.simps)
  next
    case True
    obtain s1 f where st: "scan_step tindex start pair_notes strict s = (s1, f)"
      by (cases "scan_step tindex start pair_notes strict s")
    from scan_step_ld[of tindex start pair_notes strict s] st
    have ld1: "length_declared (tr s1) = length_declared (tr s)" by simp
    show ?thesis
    proof (cases f)
      case Continue
      with "1.IH" True st have "length_declared (tr (fst (scan tindex start pair_notes strict s1)))
                                = length_declared (tr s1)" by simp
      with True st Continue ld1 show ?thesis by (subst scan.simps) simp
    next
      case Break
      with True st ld1 show ?thesis by (subst scan.simps) simp
    next
      case (Raise e)
      with True st ld1 show ?thesis by (subst scan.simps) simp
    qed
  qed
qed

lemma read_uint32_be_ok: "length lb = 4 \<Longrightarrow> \<exists>v. read_uint32_be lb = Inr v"
  by (simp add: read_uint32_be_def at_def bindE_def)

lemma parse_track_chunk:
  fixes tindex :: nat and pair_notes strict :: bool
  assumes "read r 4 = Inr (MAGIC_MTRK, r1)" and "read r1 4 = Inr (lb, r2)"
    and "read_uint32_be lb = Inr ld"
  defines "s \<equiv> chunk_scan r2 tindex pair_notes strict ld"
  shows "fst (parse_track r tindex pair_notes strict) = r2\<lparr>pos := chunk_end r2 ld\<rparr>"
    and "length_parsed (snd (parse_track r tindex pair_notes strict)) = tell (local s)"
    and "length_declared (snd (parse_track r tindex pair_notes strict)) = ld"
    and "has_end_of_track (snd (parse_track r tindex pair_notes strict)) = has_end_of_track (tr s)"
    and "t_errors (snd (parse_track r tindex pair_notes strict))
         = t_errors (tr s) @ (if has_end_of_track (tr s) then [] else [Pista tindex Sin_End_of_Track])"
proof -
  let ?s0 = "\<lparr>local = Reader0 (take (chunk_end r2 ld - tell r2) (drop (tell r2) (data r2))),
              status = None, active = Map.empty,
              tr = (if tell r2 + ld > len r2
                    then t_err ((TrackReport0 tindex)\<lparr>length_declared := ld\<rparr>)
                           (Pista tindex Longitud_excede) (int (tell r2))
                    else (TrackReport0 tindex)\<lparr>length_declared := ld\<rparr>)\<rparr>"
  have sc: "scan tindex (tell r2) pair_notes strict ?s0 = (s, None)"
    using scan_no_raise[of tindex "tell r2" pair_notes strict ?s0]
    by (simp add: s_def chunk_scan_def prod_eq_iff)
  have ld: "length_declared (tr s) = ld"
    using scan_ld[of tindex "tell r2" pair_notes strict ?s0] sc by simp
  have pt: "parse_track_try r tindex pair_notes strict
        = (r2\<lparr>pos := chunk_end r2 ld\<rparr>,
           (let tr3 = (tr s)\<lparr>length_parsed := tell (local s)\<rparr>;
                tr4 = (if length_parsed tr3 \<noteq> length_declared tr3
                       then t_warn tr3 (Pista tindex (Len_analizada (length_parsed tr3)
                                                        (length_declared tr3)))
                              (int (chunk_end r2 ld))
                       else tr3);
                tr5 = (if \<not> has_end_of_track tr4
                       then t_err tr4 (Pista tindex Sin_End_of_Track) (int (chunk_end r2 ld) - 1)
                       else tr4)
            in (if pair_notes then tr5\<lparr>stats := (stats tr5)\<lparr>dangling_notes := 0\<rparr>\<rparr> else tr5)),
           None)"
  proof (cases "tell r2 + ld > len r2")
    case True
    with sc have "scan tindex (tell r2) pair_notes strict
           \<lparr>local = Reader0 (take (len r2 - tell r2) (drop (tell r2) (data r2))),
              status = None, active = Map.empty,
              tr = t_err ((TrackReport0 tindex)\<lparr>length_declared := ld\<rparr>)
                     (Pista tindex Longitud_excede) (int (tell r2))\<rparr> = (s, None)"
      by (simp add: chunk_end_def)
    with True assms(1-3) show ?thesis
      by (simp add: parse_track_try_def Let_def chunk_end_def)
  next
    case False
    with sc have "scan tindex (tell r2) pair_notes strict
           \<lparr>local = Reader0 (take ld (drop (tell r2) (data r2))),
              status = None, active = Map.empty,
              tr = (TrackReport0 tindex)\<lparr>length_declared := ld\<rparr>\<rparr> = (s, None)"
      by (simp add: chunk_end_def)
    with False assms(1-3) show ?thesis
      by (simp add: parse_track_try_def Let_def chunk_end_def)
  qed
  show "fst (parse_track r tindex pair_notes strict) = r2\<lparr>pos := chunk_end r2 ld\<rparr>"
    by (simp add: parse_track_def pt)
  show "length_parsed (snd (parse_track r tindex pair_notes strict)) = tell (local s)"
    by (simp add: parse_track_def pt Let_def t_err_def t_warn_def)
  show "length_declared (snd (parse_track r tindex pair_notes strict)) = ld"
    by (simp add: parse_track_def pt Let_def t_err_def t_warn_def ld)
  show "has_end_of_track (snd (parse_track r tindex pair_notes strict)) = has_end_of_track (tr s)"
    by (simp add: parse_track_def pt Let_def t_err_def t_warn_def)
  show "t_errors (snd (parse_track r tindex pair_notes strict))
         = t_errors (tr s) @ (if has_end_of_track (tr s) then [] else [Pista tindex Sin_End_of_Track])"
    by (simp add: parse_track_def pt Let_def t_err_def t_warn_def)
qed

lemma chunk_scan_bound:
  assumes "tell r2 \<le> len r2"
  shows "tell (local (chunk_scan r2 tindex pair_notes strict ld)) \<le> chunk_end r2 ld - tell r2"
proof -
  let ?s0 = "\<lparr>local = Reader0 (take (chunk_end r2 ld - tell r2) (drop (tell r2) (data r2))),
              status = None, active = Map.empty,
              tr = (if tell r2 + ld > len r2
                    then t_err ((TrackReport0 tindex)\<lparr>length_declared := ld\<rparr>)
                           (Pista tindex Longitud_excede) (int (tell r2))
                    else (TrackReport0 tindex)\<lparr>length_declared := ld\<rparr>)\<rparr>"
  obtain s x where sc: "scan tindex (tell r2) pair_notes strict ?s0 = (s, x)"
    by (cases "scan tindex (tell r2) pair_notes strict ?s0")
  have "pos (local ?s0) \<le> len (local ?s0)" by (simp add: Reader0_def)
  from scan_le[OF sc this] have "data (local s) = data (local ?s0)" "pos (local s) \<le> len (local s)"
    by simp_all
  then have "pos (local s) \<le> length (take (chunk_end r2 ld - tell r2) (drop (tell r2) (data r2)))"
    by (simp add: len_def Reader0_def)
  also have "\<dots> = chunk_end r2 ld - tell r2"
    using assms by (simp add: chunk_end_def len_def tell_def)
  finally show ?thesis using sc by (simp add: chunk_scan_def tell_def)
qed





text \<open>
  C10, as stated: after the decoder returns, the outer cursor is at the declared end of
  the chunk, that is at the first byte after the tag and the length, plus the declared
  length. It is not, for the chunk that declares more bytes than the file holds: the
  cursor is then at the end of the buffer.
\<close>

theorem track_cursor_declared_end_counterexample:
  "pos (fst (parse_track \<lparr>data = truncated_track_file, pos = 14\<rparr> 0 False False))
   \<noteq> 14 + 8 + length_declared (snd (parse_track \<lparr>data = truncated_track_file, pos = 14\<rparr> 0 False False))"
  by (simp add: run_simps truncated_track_file_def)

text \<open>
  C10, amended. For every track chunk whose tag \<open>MTrk\<close> and 4-byte length have been
  read, however the event scan ended: the buffer is unchanged, the outer cursor is at
  the declared end of the chunk when that lies within the buffer and at the end of the
  buffer otherwise, the report holds the declared length, and \<open>length_parsed\<close> is the
  position the sub-cursor has reached when the scan ends, which is at most the number
  of bytes of the chunk that the buffer holds.
\<close>

theorem track_cursor_after_chunk:
  assumes "read r 4 = Inr (MAGIC_MTRK, r1)" and "read r1 4 = Inr (lb, r2)"
    and "read_uint32_be lb = Inr ld"
  shows "data (fst (parse_track r tindex pair_notes strict)) = data r
       \<and> pos (fst (parse_track r tindex pair_notes strict))
           = (if pos r + 8 + ld \<le> len r then pos r + 8 + ld else len r)
       \<and> length_declared (snd (parse_track r tindex pair_notes strict)) = ld
       \<and> length_parsed (snd (parse_track r tindex pair_notes strict))
           = tell (local (chunk_scan r2 tindex pair_notes strict ld))
       \<and> length_parsed (snd (parse_track r tindex pair_notes strict))
           \<le> (if pos r + 8 + ld \<le> len r then ld else len r - (pos r + 8))"
proof -
  from read_Inr[OF assms(1)] have a: "data r1 = data r" "pos r1 = pos r + 4" by simp_all
  from read_Inr[OF assms(2)] have b: "data r2 = data r1" "pos r2 = pos r1 + 4" "pos r2 \<le> len r1"
    by simp_all
  from a b have r2: "data r2 = data r" "pos r2 = pos r + 8" "len r2 = len r" "tell r2 \<le> len r2"
    by (simp_all add: len_def tell_def)
  note pc = parse_track_chunk[OF assms, of tindex pair_notes strict]
  have ce: "chunk_end r2 ld = (if pos r + 8 + ld \<le> len r then pos r + 8 + ld else len r)"
    using r2 by (auto simp: chunk_end_def tell_def)
  from chunk_scan_bound[OF r2(4), of tindex pair_notes strict ld]
  have bd: "tell (local (chunk_scan r2 tindex pair_notes strict ld))
            \<le> (if pos r + 8 + ld \<le> len r then ld else len r - (pos r + 8))"
    using r2 by (auto simp: ce tell_def)
  show ?thesis
    using pc(1,2,3) r2 bd ce by simp
qed

theorem track_cursor_after_chunk_witness:
  "pos (fst (parse_track \<lparr>data = truncated_track_file, pos = 14\<rparr> 0 False False)) = 25
   \<and> length_declared (snd (parse_track \<lparr>data = truncated_track_file, pos = 14\<rparr> 0 False False)) = 4
   \<and> length_parsed (snd (parse_track \<lparr>data = truncated_track_file, pos = 14\<rparr> 0 False False)) \<le> 3
   \<and> pos (fst (parse_track \<lparr>data = bad_status_file, pos = 14\<rparr> 0 False False)) = 24
   \<and> length_declared (snd (parse_track \<lparr>data = bad_status_file, pos = 14\<rparr> 0 False False)) = 2"
  using track_cursor_after_chunk[of "\<lparr>data = truncated_track_file, pos = 14\<rparr>"
      "\<lparr>data = truncated_track_file, pos = 18\<rparr>" "[0, 0, 0, 4]"
      "\<lparr>data = truncated_track_file, pos = 22\<rparr>" 4 0 False False]
    track_cursor_after_chunk[of "\<lparr>data = bad_status_file, pos = 14\<rparr>"
      "\<lparr>data = bad_status_file, pos = 18\<rparr>" "[0, 0, 0, 2]"
      "\<lparr>data = bad_status_file, pos = 22\<rparr>" 2 0 False False]
  by (simp add: truncated_track_file_def bad_status_file_def read_def len_def MAGIC_MTRK_def
      read_uint32_be_def at_def bindE_def)

lemma parse_track_no_eot_errors:
  assumes "\<not> has_end_of_track (snd (parse_track r tindex pair_notes strict))"
  shows "t_errors (snd (parse_track r tindex pair_notes strict)) \<noteq> []"
proof (cases "read r 4")
  case (Inl e1)
  then show ?thesis by (simp add: parse_track_def parse_track_try_def t_err_def Let_def)
next
  case (Inr p1)
  obtain magic r1 where p1: "p1 = (magic, r1)" by (cases p1)
  show ?thesis
  proof (cases "magic \<noteq> MAGIC_MTRK")
    case True
    with Inr p1 show ?thesis by (simp add: parse_track_def parse_track_try_def t_err_def Let_def)
  next
    case m: False
    show ?thesis
    proof (cases "read r1 4")
      case (Inl e2)
      with Inr p1 m show ?thesis by (simp add: parse_track_def parse_track_try_def t_err_def Let_def)
    next
      case i2: (Inr p2)
      obtain lb r2 where p2: "p2 = (lb, r2)" by (cases p2)
      from i2 p2 read_Inr have "length lb = 4" by blast
      from read_uint32_be_ok[OF this] obtain ld where hl: "read_uint32_be lb = Inr ld" by blast
      from m Inr p1 have r1: "read r 4 = Inr (MAGIC_MTRK, r1)" by simp
      from i2 p2 have r2: "read r1 4 = Inr (lb, r2)" by simp
      from parse_track_chunk(4,5)[OF r1 r2 hl, of tindex pair_notes strict] assms
      show ?thesis by simp
    qed
  qed
qed

text \<open>The End-of-Track flag of the report says exactly whether the decoder has seen
  an End-of-Track event in the chunk; a chunk without a byte \<open>2F\<close> has none.\<close>

lemma eot_simps [simp]:
  "has_end_of_track (t_err t m off) = has_end_of_track t"
  "has_end_of_track (t_warn t m off) = has_end_of_track t"
  "has_end_of_track (tr (s_err tindex s tm off)) = has_end_of_track (tr s)"
  "has_end_of_track (tr (s_warn tindex s tm off)) = has_end_of_track (tr s)"
  "has_end_of_track (tr (s_stats g s)) = has_end_of_track (tr s)"
  by (simp_all add: t_err_def t_warn_def s_err_def s_warn_def s_stats_def)

lemma pair_note_eot:
  "has_end_of_track (tr (fst (pair_note_off pn ch dat s))) = has_end_of_track (tr s)"
  "has_end_of_track (tr (fst (pair_note_on pn ch dat s))) = has_end_of_track (tr s)"
  by (simp_all add: pair_note_off_def pair_note_on_def split: sum.splits)

lemma channel_stats_eot:
  "has_end_of_track (tr (fst (channel_stats pn st dl dat s))) = has_end_of_track (tr s)"
  by (simp add: channel_stats_def Let_def pair_note_eot split: sum.splits)

lemma channel_msg_eot:
  "has_end_of_track (tr (fst (channel_msg t start pn st s))) = has_end_of_track (tr s)"
  by (simp add: channel_msg_def Let_def channel_stats_eot check_data_range_eot
      split: sum.splits prod.splits)

lemma sysex_msg_eot:
  "has_end_of_track (tr (fst (sysex_msg t start s))) = has_end_of_track (tr s)"
  by (simp add: sysex_msg_def Let_def split: sum.splits prod.splits)

lemma meta_body_eot:
  "has_end_of_track (tr (fst (meta_body t start strict m ln md s)))
   = (has_end_of_track (tr s) \<or> m = 0x2F)"
  by (simp add: meta_body_def Let_def split: sum.splits prod.splits list.splits)

lemma meta_msg_eot:
  "has_end_of_track (tr (fst (meta_msg t start strict s)))
   = (has_end_of_track (tr s) \<or> meta_eot_here (local s))"
proof (cases "remaining (local s) < 2")
  case True
  then show ?thesis by (simp add: meta_msg_def meta_eot_here_def)
next
  case False
  then have "int 1 \<le> remaining (local s)" by simp
  from read_ok[OF this] obtain mb l1 where rd: "read (local s) 1 = Inr (mb, l1)" "length mb = 1"
    by blast
  then obtain m where m: "at mb 0 = Inr m" by (auto simp: at_def)
  obtain l2 x where v: "read_vlq l1 = (l2, x)" by (cases "read_vlq l1")
  show ?thesis
  proof (cases x)
    case (Inl e')
    with False rd m v show ?thesis by (simp add: meta_msg_def meta_eot_here_def)
  next
    case (Inr ln)
    show ?thesis
    proof (cases "remaining l2 < int ln")
      case True
      with False rd m v Inr show ?thesis by (simp add: meta_msg_def meta_eot_here_def)
    next
      case F2: False
      then have "int ln \<le> remaining l2" by simp
      from read_ok[OF this] obtain md l3 where rd2: "read l2 ln = Inr (md, l3)" by blast
      with False rd m v Inr F2 show ?thesis
        by (simp add: meta_msg_def meta_eot_here_def meta_body_eot)
    qed
  qed
qed

lemma FF_not_channel: "\<not> ((0xFF::byte) \<le> 0xEF)"
  by simp

lemma dispatch_eot:
  "has_end_of_track (tr (fst (dispatch t start pn strict s)))
   = (has_end_of_track (tr s) \<or> (status s = Some 0xFF \<and> meta_eot_here (local s)))"
proof (cases "status s")
  case None
  then show ?thesis by (simp add: dispatch_def)
next
  case (Some st)
  show ?thesis
  proof (cases "st = 0xFF")
    case True
    with Some show ?thesis by (simp add: dispatch_def meta_msg_eot)
  next
    case False
    with Some show ?thesis
      by (simp add: dispatch_def channel_msg_eot sysex_msg_eot)
  qed
qed

lemma scan_step_eot:
  "has_end_of_track (tr (fst (scan_step t start pn strict s)))
   = (has_end_of_track (tr s) \<or> eot_event_here (local s) (status s))"
proof -
  obtain l1 x where v: "read_vlq (local s) = (l1, x)" by (cases "read_vlq (local s)")
  show ?thesis
  proof (cases x)
    case (Inl e')
    with v show ?thesis by (simp add: scan_step_def eot_event_here_def)
  next
    case (Inr dt)
    show ?thesis
    proof (cases "remaining l1 \<le> 0")
      case True
      with v Inr show ?thesis by (simp add: scan_step_def eot_event_here_def)
    next
      case False
      then have "int 1 \<le> remaining l1" by simp
      from read_ok[OF this] obtain bs l2 where rd: "read l1 1 = Inr (bs, l2)" "length bs = 1"
        by blast
      then obtain b where b: "at bs 0 = Inr b" by (auto simp: at_def)
      show ?thesis
      proof (cases "b AND 0x80 \<noteq> 0")
        case True
        with v Inr False rd b show ?thesis
          by (auto simp: scan_step_def eot_event_here_def dispatch_eot)
      next
        case nb: False
        show ?thesis
        proof (cases "status s")
          case None
          with v Inr False rd b nb show ?thesis
            by (simp add: scan_step_def eot_event_here_def)
        next
          case (Some st)
          with v Inr False rd b nb show ?thesis
            by (auto simp: scan_step_def eot_event_here_def dispatch_eot)
        qed
      qed
    qed
  qed
qed

lemma scan_eot:
  "has_end_of_track (tr (fst (scan t start pn strict s)))
   = (has_end_of_track (tr s) \<or> eot_seen t start pn strict s)"
proof (induction t start pn strict s rule: scan.induct)
  case (1 tindex start pair_notes strict s)
  show ?case
  proof (cases "remaining (local s) > 0")
    case False
    then show ?thesis by (simp add: scan.simps eot_seen.simps)
  next
    case True
    obtain s1 f where st: "scan_step tindex start pair_notes strict s = (s1, f)"
      by (cases "scan_step tindex start pair_notes strict s")
    from scan_step_eot[of tindex start pair_notes strict s] st
    have e1: "has_end_of_track (tr s1)
              = (has_end_of_track (tr s) \<or> eot_event_here (local s) (status s))" by simp
    show ?thesis
    proof (cases f)
      case Continue
      with "1.IH" True st
      have "has_end_of_track (tr (fst (scan tindex start pair_notes strict s1)))
            = (has_end_of_track (tr s1) \<or> eot_seen tindex start pair_notes strict s1)" by simp
      with True st Continue e1 show ?thesis
        by (subst scan.simps, subst eot_seen.simps) auto
    next
      case Break
      with True st e1 show ?thesis by (subst scan.simps, subst eot_seen.simps) auto
    next
      case (Raise e)
      with True st e1 show ?thesis by (subst scan.simps, subst eot_seen.simps) auto
    qed
  qed
qed

lemma chunk_scan_state:
  "chunk_scan r2 tindex pn st ld = fst (scan tindex (tell r2) pn st (chunk_state r2 tindex ld))"
  by (simp add: chunk_scan_def chunk_state_def)

lemma chunk_state_eot: "\<not> has_end_of_track (tr (chunk_state r2 tindex ld))"
  by (simp add: chunk_state_def TrackReport0_def)

lemma parse_track_eot:
  "has_end_of_track (snd (parse_track r tindex pair_notes strict))
   = track_sees_eot r tindex pair_notes strict"
proof (cases "read r 4")
  case (Inl e1)
  then show ?thesis
    by (simp add: parse_track_def parse_track_try_def track_sees_eot_def Let_def TrackReport0_def)
next
  case (Inr p1)
  obtain magic r1 where p1: "p1 = (magic, r1)" by (cases p1)
  show ?thesis
  proof (cases "magic \<noteq> MAGIC_MTRK")
    case True
    with Inr p1 show ?thesis
      by (simp add: parse_track_def parse_track_try_def track_sees_eot_def Let_def TrackReport0_def)
  next
    case m: False
    show ?thesis
    proof (cases "read r1 4")
      case (Inl e2)
      with Inr p1 m show ?thesis
        by (simp add: parse_track_def parse_track_try_def track_sees_eot_def Let_def
            TrackReport0_def)
    next
      case i2: (Inr p2)
      obtain lb r2 where p2: "p2 = (lb, r2)" by (cases p2)
      from i2 p2 read_Inr have "length lb = 4" by blast
      from read_uint32_be_ok[OF this] obtain ld where hl: "read_uint32_be lb = Inr ld" by blast
      from m Inr p1 have r1: "read r 4 = Inr (MAGIC_MTRK, r1)" by simp
      from i2 p2 have r2: "read r1 4 = Inr (lb, r2)" by simp
      have "has_end_of_track (snd (parse_track r tindex pair_notes strict))
            = eot_seen tindex (tell r2) pair_notes strict (chunk_state r2 tindex ld)"
        using parse_track_chunk(4)[OF r1 r2 hl, of tindex pair_notes strict]
          scan_eot[of tindex "tell r2" pair_notes strict "chunk_state r2 tindex ld"]
        by (simp add: chunk_scan_state chunk_state_eot)
      with r1 r2 hl show ?thesis by (simp add: track_sees_eot_def)
    qed
  qed
qed

lemma meta_eot_here_byte: "meta_eot_here l \<Longrightarrow> 0x2F \<in> set (data l)"
proof -
  assume a: "meta_eot_here l"
  then obtain mb l1 where rd: "read l 1 = Inr (mb, l1)" and m: "at mb 0 = Inr 0x2F"
    by (auto simp: meta_eot_here_def split: sum.splits prod.splits)
  from rd have lt: "pos l < length (data l)" and mb: "mb = take 1 (drop (pos l) (data l))"
    by (auto simp: read_def len_def split: if_splits)
  from m mb lt have "data l ! pos l = 0x2F"
    by (auto simp: at_def split: if_splits)
  with lt show ?thesis by (metis nth_mem)
qed

lemma eot_event_here_byte: "eot_event_here l rs \<Longrightarrow> 0x2F \<in> set (data l)"
proof -
  assume a: "eot_event_here l rs"
  obtain l1 x where v: "read_vlq l = (l1, x)" by (cases "read_vlq l")
  show ?thesis
  proof (cases x)
    case (Inl e)
    with a v show ?thesis by (simp add: eot_event_here_def)
  next
    case (Inr dt)
    show ?thesis
    proof (cases "read l1 1")
      case (Inl e)
      with a v Inr show ?thesis by (simp add: eot_event_here_def)
    next
      case i2: (Inr p)
      obtain bs l2 where p: "p = (bs, l2)" by (cases p)
      from read_vlq_adv[OF v] read_Inr[OF i2[unfolded p]] have d: "data l2 = data l" by simp
      show ?thesis
      proof (cases "at bs 0")
        case (Inl e)
        with a v Inr i2 p show ?thesis by (simp add: eot_event_here_def)
      next
        case i3: (Inr b)
        from a v Inr i2 p i3
        have "meta_eot_here l2 \<or> meta_eot_here (l2\<lparr>pos := pos l2 - 1\<rparr>)"
          by (simp add: eot_event_here_def split: if_splits)
        with d meta_eot_here_byte[of l2] meta_eot_here_byte[of "l2\<lparr>pos := pos l2 - 1\<rparr>"]
        show ?thesis by auto
      qed
    qed
  qed
qed

lemma eot_seen_byte:
  "eot_seen t start pn strict s \<Longrightarrow> 0x2F \<in> set (data (local s))"
proof (induction t start pn strict s rule: eot_seen.induct)
  case (1 tindex start pair_notes strict s)
  from "1.prems" have rem: "remaining (local s) > 0"
    by (subst (asm) eot_seen.simps) (simp split: if_splits)
  show ?case
  proof (cases "eot_event_here (local s) (status s)")
    case True
    then show ?thesis by (rule eot_event_here_byte)
  next
    case False
    obtain s1 f where st: "scan_step tindex start pair_notes strict s = (s1, f)"
      by (cases "scan_step tindex start pair_notes strict s")
    from "1.prems" rem False st have f: "f = Continue"
      and e: "eot_seen tindex start pair_notes strict s1"
      by (subst (asm) eot_seen.simps, cases f, simp_all)+
    from "1.IH" rem st f e have "0x2F \<in> set (data (local s1))" by simp
    with scan_step_data[OF st] show ?thesis by simp
  qed
qed

lemma track_sees_eot_byte:
  assumes "track_sees_eot r tindex pair_notes strict"
  shows "0x2F \<in> set (drop (pos r + 8) (data r))"
proof (cases "read r 4")
  case (Inl e)
  with assms show ?thesis by (simp add: track_sees_eot_def)
next
  case (Inr p1)
  obtain magic r1 where p1: "p1 = (magic, r1)" by (cases p1)
  show ?thesis
  proof (cases "read r1 4")
    case (Inl e)
    with assms Inr p1 show ?thesis by (simp add: track_sees_eot_def)
  next
    case i2: (Inr p2)
    obtain lb r2 where p2: "p2 = (lb, r2)" by (cases p2)
    show ?thesis
    proof (cases "read_uint32_be lb")
      case (Inl e)
      with assms Inr p1 i2 p2 show ?thesis by (simp add: track_sees_eot_def)
    next
      case i3: (Inr ld)
      from assms Inr p1 i2 p2 i3
      have e: "eot_seen tindex (tell r2) pair_notes strict (chunk_state r2 tindex ld)"
        by (simp add: track_sees_eot_def)
      from read_Inr[OF Inr[unfolded p1]] read_Inr[OF i2[unfolded p2]]
      have p: "data r2 = data r" "tell r2 = pos r + 8" by (simp_all add: tell_def)
      from eot_seen_byte[OF e]
      have "0x2F \<in> set (take (chunk_end r2 ld - tell r2) (drop (tell r2) (data r2)))"
        by (simp add: chunk_state_def Reader0_def)
      then have "0x2F \<in> set (drop (tell r2) (data r2))" by (rule in_set_takeD)
      with p show ?thesis by simp
    qed
  qed
qed

lemma parse_track_header_failed:
  assumes "\<forall>r1 lb r2. \<not> (read r 4 = Inr (MAGIC_MTRK, r1) \<and> read r1 4 = Inr (lb, r2))"
  shows "length (t_errors (snd (parse_track r tindex pair_notes strict))) = 1
       \<and> length_parsed (snd (parse_track r tindex pair_notes strict)) = 0"
proof (cases "read r 4")
  case (Inl e1)
  then show ?thesis
    by (simp add: parse_track_def parse_track_try_def Let_def TrackReport0_def t_err_def)
next
  case (Inr p1)
  obtain magic r1 where p1: "p1 = (magic, r1)" by (cases p1)
  show ?thesis
  proof (cases "magic \<noteq> MAGIC_MTRK")
    case True
    with Inr p1 show ?thesis
      by (simp add: parse_track_def parse_track_try_def Let_def TrackReport0_def t_err_def)
  next
    case m: False
    show ?thesis
    proof (cases "read r1 4")
      case (Inl e2)
      with Inr p1 m show ?thesis
        by (simp add: parse_track_def parse_track_try_def Let_def TrackReport0_def t_err_def)
    next
      case i2: (Inr p2)
      obtain lb r2 where p2: "p2 = (lb, r2)" by (cases p2)
      from assms m Inr p1 i2 p2 show ?thesis by auto
    qed
  qed
qed

text \<open>
  C9, as stated: a track whose End-of-Track event is never seen has exactly one error.
  The track whose scan stops at the undefined status byte has no End-of-Track event
  and two errors, the one of the status byte and the one of the missing End-of-Track.
\<close>

theorem missing_eot_one_error_counterexample:
  "\<not> track_sees_eot \<lparr>data = bad_status_file, pos = 14\<rparr> 0 False False
   \<and> \<not> has_end_of_track (snd (parse_track \<lparr>data = bad_status_file, pos = 14\<rparr> 0 False False))
   \<and> t_errors (snd (parse_track \<lparr>data = bad_status_file, pos = 14\<rparr> 0 False False))
     = [Pista 0 (Status_desconocido 0xF3), Pista 0 Sin_End_of_Track]
   \<and> length (t_errors (snd (parse_track \<lparr>data = bad_status_file, pos = 14\<rparr> 0 False False))) \<noteq> 1"
  by (simp add: run_simps bad_status_file_def track_sees_eot_def eot_seen.simps
      eot_event_here_def meta_eot_here_def chunk_state_def chunk_end_def)

text \<open>
  C9, amended. The End-of-Track flag of a track report is set exactly when the decoder
  sees an End-of-Track event in the chunk, which it cannot when no byte after the
  chunk header is \<open>2F\<close>. For every track in which it sees none, the flag is not set and
  the report has at least one error: when the tag and the length of the chunk have
  been read, the errors are those the scan recorded followed by the one
  missing-End-of-Track error (so exactly one when the scan recorded none), and
  \<open>length_parsed\<close> is the position the sub-cursor has reached when the scan ends, within
  the bytes of the chunk; when they have not been read, there is exactly one error and
  \<open>length_parsed\<close> is 0.
\<close>

theorem missing_eot_report:
  "has_end_of_track (snd (parse_track r tindex pair_notes strict))
     = track_sees_eot r tindex pair_notes strict
   \<and> (0x2F \<notin> set (drop (pos r + 8) (data r)) \<longrightarrow> \<not> track_sees_eot r tindex pair_notes strict)
   \<and> (\<not> track_sees_eot r tindex pair_notes strict \<longrightarrow>
        \<not> has_end_of_track (snd (parse_track r tindex pair_notes strict))
        \<and> 1 \<le> length (t_errors (snd (parse_track r tindex pair_notes strict)))
        \<and> (\<forall>r1 lb r2 ld.
              read r 4 = Inr (MAGIC_MTRK, r1) \<and> read r1 4 = Inr (lb, r2)
              \<and> read_uint32_be lb = Inr ld \<longrightarrow>
              t_errors (snd (parse_track r tindex pair_notes strict))
                = t_errors (tr (chunk_scan r2 tindex pair_notes strict ld))
                  @ [Pista tindex Sin_End_of_Track]
              \<and> length_parsed (snd (parse_track r tindex pair_notes strict))
                = tell (local (chunk_scan r2 tindex pair_notes strict ld))
              \<and> length_parsed (snd (parse_track r tindex pair_notes strict))
                \<le> chunk_end r2 ld - tell r2)
        \<and> ((\<forall>r1 lb r2. \<not> (read r 4 = Inr (MAGIC_MTRK, r1) \<and> read r1 4 = Inr (lb, r2))) \<longrightarrow>
              length (t_errors (snd (parse_track r tindex pair_notes strict))) = 1
              \<and> length_parsed (snd (parse_track r tindex pair_notes strict)) = 0))"
proof (intro conjI allI impI)
  show flag: "has_end_of_track (snd (parse_track r tindex pair_notes strict))
     = track_sees_eot r tindex pair_notes strict"
    by (rule parse_track_eot)
  {
    assume "0x2F \<notin> set (drop (pos r + 8) (data r))"
    with track_sees_eot_byte[of r tindex pair_notes strict]
    show "\<not> track_sees_eot r tindex pair_notes strict" by blast
  }
  {
    assume n: "\<not> track_sees_eot r tindex pair_notes strict"
    with flag show ne: "\<not> has_end_of_track (snd (parse_track r tindex pair_notes strict))"
      by simp
    from parse_track_no_eot_errors[OF ne]
    show "1 \<le> length (t_errors (snd (parse_track r tindex pair_notes strict)))"
      by (cases "t_errors (snd (parse_track r tindex pair_notes strict))") simp_all
    {
      fix r1 lb r2 ld
      assume h: "read r 4 = Inr (MAGIC_MTRK, r1) \<and> read r1 4 = Inr (lb, r2)
                 \<and> read_uint32_be lb = Inr ld"
      then have r1: "read r 4 = Inr (MAGIC_MTRK, r1)" and r2: "read r1 4 = Inr (lb, r2)"
        and hl: "read_uint32_be lb = Inr ld" by simp_all
      note pc = parse_track_chunk[OF r1 r2 hl, of tindex pair_notes strict]
      from pc(4,5) ne
      show "t_errors (snd (parse_track r tindex pair_notes strict))
                = t_errors (tr (chunk_scan r2 tindex pair_notes strict ld))
                  @ [Pista tindex Sin_End_of_Track]" by simp
      from pc(2)
      show lp: "length_parsed (snd (parse_track r tindex pair_notes strict))
                = tell (local (chunk_scan r2 tindex pair_notes strict ld))" .
      from read_Inr[OF r2] have "tell r2 \<le> len r2" by (simp add: tell_def len_def)
      from chunk_scan_bound[OF this, of tindex pair_notes strict ld] lp
      show "length_parsed (snd (parse_track r tindex pair_notes strict))
                \<le> chunk_end r2 ld - tell r2" by simp
    }
    {
      assume hf: "\<forall>r1 lb r2. \<not> (read r 4 = Inr (MAGIC_MTRK, r1) \<and> read r1 4 = Inr (lb, r2))"
      from parse_track_header_failed[OF hf, of tindex pair_notes strict]
      show "length (t_errors (snd (parse_track r tindex pair_notes strict))) = 1"
        and "length_parsed (snd (parse_track r tindex pair_notes strict)) = 0" by simp_all
    }
  }
qed

theorem missing_eot_report_witness:
  "0x2F \<notin> set (drop (14 + 8) bad_status_file)
   \<and> \<not> has_end_of_track (snd (parse_track \<lparr>data = bad_status_file, pos = 14\<rparr> 0 False False))
   \<and> 1 \<le> length (t_errors (snd (parse_track \<lparr>data = bad_status_file, pos = 14\<rparr> 0 False False)))
   \<and> length_parsed (snd (parse_track \<lparr>data = bad_status_file, pos = 14\<rparr> 0 False False)) = 2
   \<and> \<not> track_sees_eot \<lparr>data = note_only_file, pos = 14\<rparr> 0 False False
   \<and> \<not> has_end_of_track (snd (parse_track \<lparr>data = note_only_file, pos = 14\<rparr> 0 False False))
   \<and> t_errors (snd (parse_track \<lparr>data = note_only_file, pos = 14\<rparr> 0 False False))
     = [Pista 0 Sin_End_of_Track]
   \<and> length_parsed (snd (parse_track \<lparr>data = note_only_file, pos = 14\<rparr> 0 False False)) = 4
   \<and> t_errors (snd (parse_track \<lparr>data = note_only_file, pos = 14\<rparr> 0 False False))
     = t_errors (tr (chunk_scan \<lparr>data = note_only_file, pos = 22\<rparr> 0 False False 4))
       @ [Pista 0 Sin_End_of_Track]
   \<and> length_parsed (snd (parse_track \<lparr>data = note_only_file, pos = 14\<rparr> 0 False False))
     = tell (local (chunk_scan \<lparr>data = note_only_file, pos = 22\<rparr> 0 False False 4))
   \<and> \<not> has_end_of_track (snd (parse_track \<lparr>data = riff_file, pos = 0\<rparr> 0 False False))
   \<and> length (t_errors (snd (parse_track \<lparr>data = riff_file, pos = 0\<rparr> 0 False False))) = 1
   \<and> length_parsed (snd (parse_track \<lparr>data = riff_file, pos = 0\<rparr> 0 False False)) = 0"
proof -
  have b: "0x2F \<notin> set (drop (14 + 8) bad_status_file)"
    by (simp add: bad_status_file_def)
  have bl: "length_parsed (snd (parse_track \<lparr>data = bad_status_file, pos = 14\<rparr> 0 False False)) = 2"
    by (simp add: run_simps bad_status_file_def)
  have n: "\<not> track_sees_eot \<lparr>data = note_only_file, pos = 14\<rparr> 0 False False"
    by (simp add: run_simps note_only_file_def track_sees_eot_def eot_seen.simps
        eot_event_here_def meta_eot_here_def chunk_state_def chunk_end_def)
  have nh: "read \<lparr>data = note_only_file, pos = 14\<rparr> 4
             = Inr (MAGIC_MTRK, \<lparr>data = note_only_file, pos = 18\<rparr>)
           \<and> read \<lparr>data = note_only_file, pos = 18\<rparr> 4
             = Inr ([0, 0, 0, 4], \<lparr>data = note_only_file, pos = 22\<rparr>)
           \<and> read_uint32_be [0, 0, 0, 4] = Inr 4"
    by (simp add: note_only_file_def read_def len_def MAGIC_MTRK_def read_uint32_be_def at_def
        bindE_def)
  have ne: "t_errors (snd (parse_track \<lparr>data = note_only_file, pos = 14\<rparr> 0 False False))
            = [Pista 0 Sin_End_of_Track]"
    by (simp add: run_simps note_only_file_def)
  have nl: "length_parsed (snd (parse_track \<lparr>data = note_only_file, pos = 14\<rparr> 0 False False)) = 4"
    by (simp add: run_simps note_only_file_def)
  have r: "\<not> track_sees_eot \<lparr>data = riff_file, pos = 0\<rparr> 0 False False"
    by (simp add: riff_file_def track_sees_eot_def read_def len_def MAGIC_MTRK_def)
  have rh: "\<forall>r1 lb r2. \<not> (read \<lparr>data = riff_file, pos = 0\<rparr> 4 = Inr (MAGIC_MTRK, r1)
                          \<and> read r1 4 = Inr (lb, r2))"
    by (simp add: riff_file_def read_def len_def MAGIC_MTRK_def)
  from missing_eot_report[of "\<lparr>data = bad_status_file, pos = 14\<rparr>" 0 False False] b
  have 1: "\<not> has_end_of_track (snd (parse_track \<lparr>data = bad_status_file, pos = 14\<rparr> 0 False False))
        \<and> 1 \<le> length (t_errors (snd (parse_track \<lparr>data = bad_status_file, pos = 14\<rparr> 0 False False)))"
    by simp
  from missing_eot_report[of "\<lparr>data = note_only_file, pos = 14\<rparr>" 0 False False] n
  have 2: "\<not> has_end_of_track (snd (parse_track \<lparr>data = note_only_file, pos = 14\<rparr> 0 False False))"
    by simp
  from missing_eot_report[of "\<lparr>data = note_only_file, pos = 14\<rparr>" 0 False False] n nh
  have 4: "t_errors (snd (parse_track \<lparr>data = note_only_file, pos = 14\<rparr> 0 False False))
          = t_errors (tr (chunk_scan \<lparr>data = note_only_file, pos = 22\<rparr> 0 False False 4))
            @ [Pista 0 Sin_End_of_Track]
        \<and> length_parsed (snd (parse_track \<lparr>data = note_only_file, pos = 14\<rparr> 0 False False))
          = tell (local (chunk_scan \<lparr>data = note_only_file, pos = 22\<rparr> 0 False False 4))"
    by blast
  from missing_eot_report[of "\<lparr>data = riff_file, pos = 0\<rparr>" 0 False False] r rh
  have 3: "\<not> has_end_of_track (snd (parse_track \<lparr>data = riff_file, pos = 0\<rparr> 0 False False))
        \<and> length (t_errors (snd (parse_track \<lparr>data = riff_file, pos = 0\<rparr> 0 False False))) = 1
        \<and> length_parsed (snd (parse_track \<lparr>data = riff_file, pos = 0\<rparr> 0 False False)) = 0"
    by blast
  from b bl n ne nl 1 2 3 4 show ?thesis by blast
qed

section \<open>No exception reaches the caller\<close>




end
